(* ===== verification/Prelude.thy ===== *)
theory Prelude imports Main "HOL-Library.Word" "HOL-Library.Monad_Syntax" begin

text \<open>
  What the component theories share: the C integer types of the target (CheriBSD on
  64-bit MIPS: \<open>int\<close> and \<open>unsigned\<close> have 32 bits, \<open>long\<close>, \<open>unsigned long\<close> and \<open>off_t\<close>
  have 64), checked accesses to C arrays, and the lemmas on bytes, lists and words that
  more than one component uses.  A C array is a list; a read or a write outside it is
  the value \<open>None\<close>, never an unspecified element.
\<close>

unbundle bit_operations_syntax

section \<open>C integer types\<close>

type_synonym u8 = "8 word"
type_synonym u16 = "16 word"
type_synonym u32 = "32 word"
type_synonym u64 = "64 word"
type_synonym bytes = "u8 list"

text \<open>The values of \<open>errno\<close> the modelled code sets or tests.\<close>

datatype errno = EINTR | EBADMSG | ECHILD | ESRCH | EMSGSIZE | EPIPE | EBADRPC | EFTYPE | EINVAL | EOTHER nat

section \<open>Collections of facts\<close>

text \<open>\<open>array_simps\<close> evaluates checked array accesses, \<open>unat_simps\<close> moves word
  arithmetic that does not wrap to the natural numbers.\<close>

named_theorems array_simps
named_theorems unat_simps

section \<open>Checked array accesses\<close>

definition rd :: "'a list \<Rightarrow> nat \<Rightarrow> 'a option" where
  "rd xs i = (if i < length xs then Some (xs ! i) else None)"

definition wr :: "'a list \<Rightarrow> nat \<Rightarrow> 'a \<Rightarrow> 'a list option" where
  "wr xs i v = (if i < length xs then Some (xs[i := v]) else None)"

text \<open>\<open>split_at n xs\<close>: the \<open>n\<close> elements at a pointer and the pointer past them.\<close>

definition split_at :: "nat \<Rightarrow> 'a list \<Rightarrow> ('a list \<times> 'a list) option" where
  "split_at n xs = (if n \<le> length xs then Some (take n xs, drop n xs) else None)"

lemma rd_in [array_simps]: "i < length xs \<Longrightarrow> rd xs i = Some (xs ! i)"
  by (simp add: rd_def)

lemma rd_out [array_simps]: "length xs \<le> i \<Longrightarrow> rd xs i = None"
  by (simp add: rd_def)

lemma rd_eq_Some_iff: "rd xs i = Some v \<longleftrightarrow> i < length xs \<and> xs ! i = v"
  by (auto simp: rd_def)

lemma wr_in [array_simps]: "i < length xs \<Longrightarrow> wr xs i v = Some (xs[i := v])"
  by (simp add: wr_def)

lemma wr_out [array_simps]: "length xs \<le> i \<Longrightarrow> wr xs i v = None"
  by (simp add: wr_def)

lemma wr_eq_Some_iff: "wr xs i v = Some ys \<longleftrightarrow> i < length xs \<and> ys = xs[i := v]"
  by (auto simp: wr_def)

lemma split_at_le [array_simps]: "n \<le> length xs \<Longrightarrow> split_at n xs = Some (take n xs, drop n xs)"
  by (simp add: split_at_def)

lemma split_at_gt [array_simps]: "length xs < n \<Longrightarrow> split_at n xs = None"
  by (simp add: split_at_def)

lemma split_at_Some_iff:
  "split_at n xs = Some (us, vs) \<longleftrightarrow> n \<le> length xs \<and> us = take n xs \<and> vs = drop n xs"
  by (auto simp: split_at_def)

section \<open>Loops over a buffer\<close>

text \<open>\<open>while (len >= k) { step on the next k elements; len -= k; }\<close>: the state, the
  pointer and the remaining length after the loop.\<close>

function chunk_loop ::
  "nat \<Rightarrow> ('s \<Rightarrow> 'a list \<Rightarrow> 's) \<Rightarrow> 's \<Rightarrow> 'a list \<Rightarrow> nat \<Rightarrow> ('s \<times> 'a list \<times> nat) option" where
  "chunk_loop k step s buf len =
     (if 0 < k \<and> k \<le> len then
        do { (now, later) \<leftarrow> split_at k buf; chunk_loop k step (step s now) later (len - k) }
      else Some (s, buf, len))"
  by pat_completeness auto
termination
  by (relation "measure (\<lambda>(k, step, s, buf, len). len)") auto

declare chunk_loop.simps [simp del]

text \<open>An unrolled step that folds over its elements makes the loop a fold.\<close>

lemma chunk_loop_foldl:
  assumes step: "\<And>s xs. length xs = k \<Longrightarrow> step s xs = foldl f s xs" and "0 < k" "len \<le> length buf"
  shows "chunk_loop k step s buf len
    = Some (foldl f s (take (k * (len div k)) buf), drop (k * (len div k)) buf, len mod k)"
  using assms(3)
proof (induction len arbitrary: s buf rule: less_induct)
  case (less len)
  show ?case
  proof (cases "k \<le> len")
    case False
    then show ?thesis by (simp add: chunk_loop.simps [of k])
  next
    case True
    let ?m = "k * ((len - k) div k)"
    have "chunk_loop k step (step s (take k buf)) (drop k buf) (len - k)
      = Some (foldl f (step s (take k buf)) (take ?m (drop k buf)), drop ?m (drop k buf), (len - k) mod k)"
      using less.prems True assms(2) by (intro less.IH) auto
    moreover have "k * (len div k) = k + ?m" "(len - k) mod k = len mod k"
      using True assms(2) by (simp_all add: le_div_geq le_mod_geq)
    ultimately show ?thesis
      using less.prems True assms(2) step [of "take k buf" s]
      by (simp add: chunk_loop.simps [of k _ _ _ len] split_at_le take_add add.commute)
  qed
qed

text \<open>\<open>folds f s buf len r\<close>: the loop result \<open>r\<close> has folded \<open>f\<close> over some of the
  first \<open>len\<close> elements of the buffer and points behind them.\<close>

definition folds :: "('s \<Rightarrow> 'a \<Rightarrow> 's) \<Rightarrow> 's \<Rightarrow> 'a list \<Rightarrow> nat \<Rightarrow> ('s \<times> 'a list \<times> nat) option \<Rightarrow> bool" where
  "folds f s buf len r \<longleftrightarrow>
     (\<exists>k \<le> len. r = Some (foldl f s (take k buf), drop k buf, len - k))"

lemma folds_chunk_loop:
  assumes "\<And>s xs. length xs = k \<Longrightarrow> step s xs = foldl f s xs" "0 < k" "len \<le> length buf"
  shows "folds f s buf len (chunk_loop k step s buf len)"
  unfolding folds_def using chunk_loop_foldl [of k step f len buf s] assms
  by (intro exI [of _ "k * (len div k)"]) (auto simp: minus_mult_div_eq_mod)

lemma folds_bind:
  assumes "folds f s buf len r" "len \<le> length buf"
    and "\<And>s' buf' len'. len' \<le> length buf' \<Longrightarrow> folds f s' buf' len' (g (s', buf', len'))"
  shows "folds f s buf len (r \<bind> g)"
proof -
  from assms(1) obtain j where j: "j \<le> len" "r = Some (foldl f s (take j buf), drop j buf, len - j)"
    by (auto simp: folds_def)
  have "len - j \<le> length (drop j buf)" using assms(2) by simp
  then have "folds f (foldl f s (take j buf)) (drop j buf) (len - j)
      (g (foldl f s (take j buf), drop j buf, len - j))"
    by (rule assms(3))
  then obtain k where k: "k \<le> len - j" "g (foldl f s (take j buf), drop j buf, len - j)
      = Some (foldl f (foldl f s (take j buf)) (take k (drop j buf)), drop k (drop j buf), len - j - k)"
    by (auto simp: folds_def)
  moreover have "take (j + k) buf = take j buf @ take k (drop j buf)"
    by (rule take_add)
  ultimately show ?thesis
    unfolding folds_def using j by (intro exI [of _ "j + k"]) (simp add: add.commute)
qed

text \<open>A last loop byte by byte leaves nothing.\<close>

lemma folds_finish:
  assumes "folds f s buf len r" "len \<le> length buf"
  shows "(r \<bind> (\<lambda>(s, buf, len). chunk_loop 1 (foldl f) s buf len))
    = Some (foldl f s (take len buf), drop len buf, 0)"
proof -
  from assms(1) obtain j where j: "j \<le> len" "r = Some (foldl f s (take j buf), drop j buf, len - j)"
    by (auto simp: folds_def)
  moreover have "take len buf = take j buf @ take (len - j) (drop j buf)"
    using take_add [of j "len - j" buf] j by simp
  ultimately show ?thesis
    using chunk_loop_foldl [of 1 "foldl f" f "len - j" "drop j buf"] assms(2) by simp
qed

section \<open>Words that do not wrap\<close>

lemma unat_add_no_wrap [unat_simps]:
  "unat x + unat y < 2 ^ LENGTH('a) \<Longrightarrow> unat (x + y) = unat x + unat (y :: 'a::len word)"
  by (simp add: unat_word_ariths)

lemma unat_mult_no_wrap [unat_simps]:
  "unat x * unat y < 2 ^ LENGTH('a) \<Longrightarrow> unat (x * y) = unat x * unat (y :: 'a::len word)"
  by (simp add: unat_word_ariths)

lemma unat_diff_no_wrap [unat_simps]:
  "unat y \<le> unat x \<Longrightarrow> unat (x - y) = unat x - unat (y :: 'a::len word)"
  by (simp add: unat_sub word_le_nat_alt)

lemma unat_mod_word [unat_simps]: "unat (x mod y) = unat x mod unat (y :: 'a::len word)"
  by (fact unat_mod)

lemma unat_byte_less [simp]: "unat (b :: u8) < 256"
  using unsigned_less [of b] by simp

lemma unat_byte_le: "unat (b :: u8) \<le> 255"
  using unat_byte_less [of b] by linarith

lemma unat_ucast_byte64 [simp]: "unat (ucast (b :: u8) :: u64) = unat b"
  by (simp add: unsigned_ucast_eq take_bit_nat_eq_self unat_byte_less [THEN less_trans])

section \<open>Masks, shifts and packed fields\<close>

lemma unat_and_mask [unat_simps]: "unat (x AND mask n) = unat (x :: 'a::len word) mod 2 ^ n"
  by (simp add: flip: take_bit_eq_mask take_bit_eq_mod) (simp add: unsigned_take_bit_eq)

lemma unat_and_ffff [unat_simps]: "unat (x AND 0xffff) = unat (x :: u64) mod 65536"
  using unat_and_mask [of x 16] by (simp add: mask_eq_exp_minus_1)

lemma unat_drop_bit [unat_simps]: "unat (drop_bit n x) = unat (x :: 'a::len word) div 2 ^ n"
  by (simp only: unsigned_drop_bit_eq) (simp add: drop_bit_eq_div take_bit_nat_eq_self)

lemma nat_or_push_bit: "a < 2 ^ n \<Longrightarrow> a OR push_bit n b = a + b * 2 ^ n" for a b :: nat
proof -
  assume "a < 2 ^ n"
  then have "take_bit n a = a" by (simp add: take_bit_nat_eq_self)
  then have "\<not> bit a k" if "n \<le> k" for k
    using that by (metis bit_take_bit_iff not_le)
  then have "a AND push_bit n b = 0"
    by (auto simp: bit_eq_iff bit_simps)
  then show ?thesis
    by (simp add: push_bit_eq_mult flip: disjunctive_add_eq_or)
qed

lemma unat_push_bit [unat_simps]:
  "unat b * 2 ^ n < 2 ^ LENGTH('a) \<Longrightarrow> unat (push_bit n b) = unat (b :: 'a::len word) * 2 ^ n"
  by (simp only: unsigned_push_bit_eq) (simp add: take_bit_nat_eq_self push_bit_eq_mult)

lemma unat_or_push_bit [unat_simps]:
  assumes "unat a < 2 ^ n" "unat a + unat b * 2 ^ n < 2 ^ LENGTH('a)"
  shows "unat (a OR push_bit n b) = unat a + unat (b :: 'a::len word) * 2 ^ n"
proof -
  have "unat (push_bit n b) = push_bit n (unat b)"
    using assms by (simp add: unat_push_bit) (simp add: push_bit_eq_mult)
  then show ?thesis
    using assms by (simp add: unsigned_or_eq nat_or_push_bit)
qed

lemma ucast_down_up [simp]: "(ucast (ucast (c :: u32) :: u64) :: u32) = c"
  by (rule bit_word_eqI) (auto simp: bit_simps)

lemma word_xor_cancel: "x XOR a = x XOR b \<longleftrightarrow> a = (b :: 'a::len word)"
proof
  assume "x XOR a = x XOR b"
  then have "x XOR (x XOR a) = x XOR (x XOR b)" by simp
  then show "a = b" by (simp add: xor.assoc [symmetric])
qed simp

end
