(* ===== verification/Checksum.thy ===== *)
theory Checksum imports Prelude begin

text \<open>
  The interface every user of a checksum relies on (inflate's \<open>UPDATE\<close>, deflate's
  \<open>read_buf\<close>, gzip's \<open>crc32\<close> calls): the value after two calls is the value after one
  call on both buffers, so a checksum computed chunk by chunk does not depend on the
  chunking; and, where the library has it, a combine operation that computes the value
  of a concatenation from the values of the parts.  The providers are the theories
  Adler32 and Crc32, which interpret the locales on the code's functions.
\<close>

locale checksum =
  fixes upd :: "u64 \<Rightarrow> bytes \<Rightarrow> u64 option"
    and start :: u64
    and ok :: "u64 \<Rightarrow> bool"
  assumes ok_start: "ok start"
    and upd_total: "ok c \<Longrightarrow> \<exists>c'. upd c xs = Some c' \<and> ok c'"
    and upd_Nil: "ok c \<Longrightarrow> upd c [] = Some c"
    and upd_append: "ok c \<Longrightarrow> upd c (xs @ ys) = upd c xs \<bind> (\<lambda>c'. upd c' ys)"
begin

text \<open>Feeding a list of buffers, one call each.\<close>

fun feed :: "u64 \<Rightarrow> bytes list \<Rightarrow> u64 option" where
  "feed c [] = Some c"
| "feed c (xs # xss) = upd c xs \<bind> (\<lambda>c'. feed c' xss)"

lemma feed_concat: "ok c \<Longrightarrow> feed c xss = upd c (concat xss)"
proof (induction xss arbitrary: c)
  case Nil
  then show ?case by (simp add: upd_Nil)
next
  case (Cons xs xss)
  from upd_total [OF Cons.prems, of xs] obtain c' where c': "upd c xs = Some c'" "ok c'"
    by blast
  with Cons show ?case by (simp add: upd_append)
qed

lemma feed_chunking_irrelevant:
  "concat xss = concat yss \<Longrightarrow> feed start xss = feed start yss"
  by (simp add: feed_concat ok_start)

lemma feed_total: "\<exists>c. feed start xss = Some c \<and> ok c"
  using upd_total [OF ok_start] by (simp add: feed_concat ok_start)

lemma upd_upd:
  "ok c \<Longrightarrow> upd c xs = Some d \<Longrightarrow> upd c (xs @ ys) = upd d ys"
  by (simp add: upd_append)

end

locale combinable_checksum = checksum +
  fixes comb :: "u64 \<Rightarrow> u64 \<Rightarrow> int \<Rightarrow> u64 option"
  assumes comb_append:
    "upd start xs = Some a \<Longrightarrow> upd start ys = Some b \<Longrightarrow> length ys < 2 ^ 63 \<Longrightarrow>
       upd start (xs @ ys) = comb a b (int (length ys))"
begin

text \<open>Combining is associative on the checksums of buffers.\<close>

lemma comb_assoc:
  assumes "upd start xs = Some a" "upd start ys = Some b" "upd start zs = Some c"
    and "length ys + length zs < 2 ^ 63"
  shows "(comb a b (int (length ys)) \<bind> (\<lambda>ab. comb ab c (int (length zs))))
       = (comb b c (int (length zs)) \<bind> (\<lambda>bc. comb a bc (int (length ys + length zs))))"
proof -
  obtain ab bc where ab: "upd start (xs @ ys) = Some ab" and bc: "upd start (ys @ zs) = Some bc"
    using upd_total [OF ok_start] by blast
  then have "comb a b (int (length ys)) = Some ab" "comb b c (int (length zs)) = Some bc"
    using assms comb_append [of xs a ys b] comb_append [of ys b zs c] by auto
  moreover have "comb ab c (int (length zs)) = upd start ((xs @ ys) @ zs)"
    using assms ab by (intro comb_append [symmetric]) auto
  moreover have "comb a bc (int (length ys + length zs)) = upd start (xs @ (ys @ zs))"
    using assms bc comb_append [of xs a "ys @ zs" bc] by simp
  ultimately show ?thesis by simp
qed

lemma comb_Nil: "upd start xs = Some a \<Longrightarrow> comb a start 0 = Some a"
  using comb_append [of xs a "[]" start] upd_Nil [OF ok_start] by simp

end

end
