(* ===== verification/Adler32.thy ===== *)
theory Adler32 imports Checksum begin

text \<open>
  \<^verbatim>\<open>libz_u/adler32.c\<close>.  \<open>uLong\<close> is \<open>u64\<close>; a buffer is the list of bytes at the
  pointer (\<open>None\<close> for \<open>Z_NULL\<close>), and a read past its end, or through \<open>Z_NULL\<close>, makes the
  result \<open>None\<close>.  \<open>NO_DIVIDE\<close> is not defined, so \<open>MOD\<close>, \<open>MOD28\<close> and \<open>MOD63\<close> are
  remainders by \<open>BASE\<close>.  The lemmas show that the deferred remainders never let a sum
  exceed 32 bits, that the result is the checksum RFC 1950 defines, and that
  \<open>adler32_combine\<close> computes the checksum of a concatenation.
\<close>

section \<open>The code\<close>

definition BASE :: u64 where "BASE = 65521"

definition NMAX :: nat where "NMAX = 5552"

definition DO1 :: "u64 \<times> u64 \<Rightarrow> u8 \<Rightarrow> u64 \<times> u64" where
  "DO1 s b = (let adler = fst s + ucast b; sum2 = snd s + adler in (adler, sum2))"

text \<open>\<open>DO16 (buf); buf += 16\<close>\<close>

definition DO16 :: "(u64 \<times> u64) \<times> bytes \<Rightarrow> ((u64 \<times> u64) \<times> bytes) option" where
  "DO16 st = (case st of (s, buf) \<Rightarrow>
     do { (now, later) \<leftarrow> split_at 16 buf; Some (foldl DO1 s now, later) })"

text \<open>\<open>do { DO16 (buf); buf += 16; } while (--n);\<close> with \<open>n\<close> at least 1.\<close>

fun do_block :: "nat \<Rightarrow> (u64 \<times> u64) \<times> bytes \<Rightarrow> ((u64 \<times> u64) \<times> bytes) option" where
  "do_block 0 st = Some st"
| "do_block (Suc n) st = DO16 st \<bind> do_block n"

definition MOD_pair :: "u64 \<times> u64 \<Rightarrow> u64 \<times> u64" where
  "MOD_pair s = (fst s mod BASE, snd s mod BASE)"

text \<open>\<open>while (len >= NMAX)\<close>\<close>

function nmax_blocks :: "(u64 \<times> u64) \<times> bytes \<Rightarrow> nat \<Rightarrow> (((u64 \<times> u64) \<times> bytes) \<times> nat) option" where
  "nmax_blocks st len =
     (if len \<ge> NMAX then
        do { (s, buf) \<leftarrow> do_block (NMAX div 16) st;
             nmax_blocks (MOD_pair s, buf) (len - NMAX) }
      else Some (st, len))"
  by pat_completeness auto
termination
  by (relation "measure snd") (auto simp: NMAX_def)

text \<open>\<open>while (len >= 16)\<close>\<close>

function by16 :: "(u64 \<times> u64) \<times> bytes \<Rightarrow> nat \<Rightarrow> (((u64 \<times> u64) \<times> bytes) \<times> nat) option" where
  "by16 st len =
     (if len \<ge> 16 then do { st' \<leftarrow> DO16 st; by16 st' (len - 16) }
      else Some (st, len))"
  by pat_completeness auto
termination
  by (relation "measure snd") auto

text \<open>\<open>while (len--) { adler += *buf++; sum2 += adler; }\<close>\<close>

definition by1 :: "(u64 \<times> u64) \<times> bytes \<Rightarrow> nat \<Rightarrow> (u64 \<times> u64) option" where
  "by1 st len = (case st of (s, buf) \<Rightarrow>
     do { (now, _) \<leftarrow> split_at len buf; Some (foldl DO1 s now) })"

definition recombine :: "u64 \<times> u64 \<Rightarrow> u64" where
  "recombine s = fst s OR push_bit 16 (snd s)"

definition adler32 :: "u64 \<Rightarrow> bytes option \<Rightarrow> nat \<Rightarrow> u64 option" where
  "adler32 adler buf len =
    (let sum2 = drop_bit 16 adler AND 0xffff; adler = adler AND 0xffff in
     if len = 1 then
       do { p \<leftarrow> buf;
            b \<leftarrow> rd p 0;
            let adler = adler + ucast b;
            let adler = (if adler \<ge> BASE then adler - BASE else adler);
            let sum2 = sum2 + adler;
            let sum2 = (if sum2 \<ge> BASE then sum2 - BASE else sum2);
            Some (recombine (adler, sum2)) }
     else case buf of
       None \<Rightarrow> Some 1
     | Some p \<Rightarrow>
         if len < 16 then
           do { (adler, sum2) \<leftarrow> by1 ((adler, sum2), p) len;
                let adler = (if adler \<ge> BASE then adler - BASE else adler);
                Some (recombine (adler, sum2 mod BASE)) }
         else
           do { (st, len) \<leftarrow> nmax_blocks ((adler, sum2), p) len;
                if len \<noteq> 0 then
                  do { (st, len) \<leftarrow> by16 st len;
                       s \<leftarrow> by1 st len;
                       Some (recombine (MOD_pair s)) }
                else Some (recombine (fst st)) })"

text \<open>\<open>adler32_combine_\<close>; \<open>len2\<close> is a signed 64-bit offset.\<close>

definition adler32_combine_impl :: "u64 \<Rightarrow> u64 \<Rightarrow> int \<Rightarrow> u64" where
  "adler32_combine_impl adler1 adler2 len2 =
    (if len2 < 0 then 0xffffffff
     else
       let rem = word_of_int (len2 mod 65521) :: u32;
           sum1 = adler1 AND 0xffff;
           sum2 = (ucast rem * sum1) mod BASE;
           sum1 = sum1 + ((adler2 AND 0xffff) + BASE - 1);
           sum2 = sum2 + ((drop_bit 16 adler1 AND 0xffff) + (drop_bit 16 adler2 AND 0xffff)
                          + BASE - ucast rem);
           sum1 = (if sum1 \<ge> BASE then sum1 - BASE else sum1);
           sum1 = (if sum1 \<ge> BASE then sum1 - BASE else sum1);
           sum2 = (if sum2 \<ge> push_bit 1 BASE then sum2 - push_bit 1 BASE else sum2);
           sum2 = (if sum2 \<ge> BASE then sum2 - BASE else sum2)
       in recombine (sum1, sum2))"

definition adler32_combine :: "u64 \<Rightarrow> u64 \<Rightarrow> int \<Rightarrow> u64" where
  "adler32_combine adler1 adler2 len2 = adler32_combine_impl adler1 adler2 len2"

definition adler32_combine64 :: "u64 \<Rightarrow> u64 \<Rightarrow> int \<Rightarrow> u64" where
  "adler32_combine64 adler1 adler2 len2 = adler32_combine_impl adler1 adler2 len2"

section \<open>The checksum of RFC 1950\<close>

text \<open>
  RFC 1950: \<open>s1\<close> is the sum of all bytes, \<open>s2\<close> the sum of all \<open>s1\<close> values, both
  modulo 65521; the checksum is \<open>s2 * 65536 + s1\<close>.  \<open>sums\<close> are these sums before the
  remainder, over the natural numbers.
\<close>

fun sums :: "nat \<times> nat \<Rightarrow> bytes \<Rightarrow> nat \<times> nat" where
  "sums s [] = s"
| "sums s (x # xs) = sums (fst s + unat x, snd s + (fst s + unat x)) xs"

definition rfc_adler :: "nat \<times> nat \<Rightarrow> bytes \<Rightarrow> nat" where
  "rfc_adler s xs = snd (sums s xs) mod 65521 * 65536 + fst (sums s xs) mod 65521"

definition valid_adler :: "u64 \<Rightarrow> bool" where
  "valid_adler c \<longleftrightarrow> unat c mod 65536 < 65521 \<and> unat c div 65536 < 65521"

definition parts :: "u64 \<Rightarrow> nat \<times> nat" where
  "parts c = (unat c mod 65536, unat c div 65536)"

lemma sums_append: "sums s (xs @ ys) = sums (sums s xs) ys"
  by (induction xs arbitrary: s) auto

lemma fst_sums: "fst (sums s xs) = fst s + (\<Sum>x\<leftarrow>xs. unat x)"
  by (induction xs arbitrary: s) auto

lemma snd_sums_eq: "snd (sums s xs) = snd s + length xs * fst s + snd (sums (0, 0) xs)"
proof (induction xs arbitrary: s)
  case Nil
  then show ?case by simp
next
  case (Cons x xs)
  show ?case
    using Cons.IH [of "(fst s + unat x, snd s + (fst s + unat x))"] Cons.IH [of "(unat x, unat x)"]
    by (simp add: algebra_simps)
qed

lemma sums_mono: "fst s \<le> fst (sums s xs)" "snd s \<le> snd (sums s xs)"
  using snd_sums_eq [of s xs] by (auto simp: fst_sums)

text \<open>The bound behind \<open>NMAX\<close>: \<open>255 n (n + 1) / 2 + (n + 1) (BASE - 1)\<close> and less.\<close>

lemma sums_zero_bound: "2 * snd (sums (0, 0) xs) \<le> 255 * length xs * (length xs + 1)"
proof (induction xs)
  case Nil
  then show ?case by simp
next
  case (Cons x xs)
  have "snd (sums (0, 0) (x # xs)) = unat x + length xs * unat x + snd (sums (0, 0) xs)"
    using snd_sums_eq [of "(unat x, unat x)" xs] by simp
  moreover have "(length xs + 1) * unat x \<le> (length xs + 1) * 255"
    by (intro mult_le_mono2 unat_byte_le)
  ultimately show ?case
    using Cons by (simp add: algebra_simps)
qed

lemma sums_bound:
  assumes "fst s \<le> a" "snd s \<le> b"
  shows "fst (sums s xs) \<le> a + 255 * length xs"
    and "2 * snd (sums s xs) \<le> 2 * b + 2 * (length xs * a) + 255 * length xs * (length xs + 1)"
proof -
  have "(\<Sum>x\<leftarrow>xs. unat x) \<le> 255 * length xs"
  proof (induction xs)
    case (Cons x xs)
    then show ?case using unat_byte_le [of x] by simp
  qed simp
  with assms show "fst (sums s xs) \<le> a + 255 * length xs"
    by (simp add: fst_sums)
  have "length xs * fst s \<le> length xs * a"
    using assms by simp
  with assms sums_zero_bound [of xs]
  show "2 * snd (sums s xs) \<le> 2 * b + 2 * (length xs * a) + 255 * length xs * (length xs + 1)"
    using snd_sums_eq [of s xs] by linarith
qed

text \<open>Remainders may be taken at any point.\<close>

lemma sums_mod:
  "fst (sums (a mod m, b mod m) xs) mod m = fst (sums (a, b) xs) mod m"
  "snd (sums (a mod m, b mod m) xs) mod m = snd (sums (a, b) xs) mod m"
proof -
  show "fst (sums (a mod m, b mod m) xs) mod m = fst (sums (a, b) xs) mod m"
    by (simp add: fst_sums mod_add_left_eq)
  have "(b mod m + length xs * (a mod m) + c) mod m = (b + length xs * a + c) mod m" for c
    by (metis mod_add_cong mod_mod_trivial mod_mult_right_eq)
  then show "snd (sums (a mod m, b mod m) xs) mod m = snd (sums (a, b) xs) mod m"
    using snd_sums_eq [of "(a mod m, b mod m)" xs] snd_sums_eq [of "(a, b)" xs] by simp
qed

section \<open>The code computes it\<close>

definition nats :: "u64 \<times> u64 \<Rightarrow> nat \<times> nat" where
  "nats s = (unat (fst s), unat (snd s))"

definition reduced :: "nat \<times> nat \<Rightarrow> bool" where
  "reduced s \<longleftrightarrow> fst s < 65521 \<and> snd s < 65521"

definition red :: "nat \<times> nat \<Rightarrow> bytes \<Rightarrow> nat \<times> nat" where
  "red s xs = (fst (sums s xs) mod 65521, snd (sums s xs) mod 65521)"

lemma red_append: "red (red s xs) ys = red s (xs @ ys)"
  by (cases "sums s xs") (simp add: red_def sums_append sums_mod)

lemma reduced_red [simp]: "reduced (red s xs)"
  by (simp add: reduced_def red_def)

lemma red_Nil [simp]: "reduced s \<Longrightarrow> red s [] = s"
  by (simp add: red_def reduced_def)

lemma unat_BASE [simp]: "unat BASE = 65521"
  by (simp add: BASE_def)

lemma DO1_nats:
  assumes "fst (nats s) + unat x < 2 ^ 64" "snd (nats s) + (fst (nats s) + unat x) < 2 ^ 64"
  shows "nats (DO1 s x) = (fst (nats s) + unat x, snd (nats s) + (fst (nats s) + unat x))"
proof -
  have "unat (fst s + ucast x) = unat (fst s) + unat x"
    using assms by (simp add: nats_def unat_add_no_wrap)
  with assms show ?thesis
    by (simp add: nats_def DO1_def Let_def unat_add_no_wrap)
qed

lemma foldl_DO1_nats:
  assumes "fst (sums (nats s) xs) < 2 ^ 64" "snd (sums (nats s) xs) < 2 ^ 64"
  shows "nats (foldl DO1 s xs) = sums (nats s) xs"
  using assms
proof (induction xs arbitrary: s)
  case Nil
  then show ?case by simp
next
  case (Cons x xs)
  have "nats (DO1 s x) = (fst (nats s) + unat x, snd (nats s) + (fst (nats s) + unat x))"
    using Cons.prems sums_mono [of "(fst (nats s) + unat x, snd (nats s) + (fst (nats s) + unat x))" xs]
    by (intro DO1_nats) auto
  with Cons show ?case by simp
qed

text \<open>No sum of a block leaves 32 bits, so the code is right for a 32-bit \<open>uLong\<close> too.\<close>

lemma block_bound:
  assumes "reduced s" "length xs \<le> NMAX"
  shows "fst (sums s xs) < 2 ^ 32" "snd (sums s xs) < 2 ^ 32"
proof -
  have s: "fst s \<le> 65520" "snd s \<le> 65520" and n: "length xs \<le> 5552"
    using assms by (auto simp: reduced_def NMAX_def)
  have "fst (sums s xs) \<le> 65520 + 255 * length xs"
    by (rule sums_bound(1) [OF s])
  with n show "fst (sums s xs) < 2 ^ 32" by simp
  have "length xs * (length xs + 1) \<le> 5552 * (5552 + 1)"
    using n by (intro mult_le_mono) auto
  with n sums_bound(2) [OF s, of xs] show "snd (sums s xs) < 2 ^ 32"
    by simp
qed

lemma foldl_DO1_block:
  assumes "reduced (nats s)" "length xs \<le> NMAX"
  shows "nats (foldl DO1 s xs) = sums (nats s) xs"
  using block_bound [OF assms] by (intro foldl_DO1_nats) simp_all

lemma MOD_block:
  assumes "reduced (nats s)" "length xs \<le> NMAX"
  shows "nats (MOD_pair (foldl DO1 s xs)) = red (nats s) xs"
proof -
  have "nats (MOD_pair t) = (fst (nats t) mod 65521, snd (nats t) mod 65521)" for t
    by (simp add: nats_def MOD_pair_def unat_mod)
  with foldl_DO1_block [OF assms] show ?thesis by (simp add: red_def)
qed

lemma do_block_eq:
  "16 * n \<le> length buf \<Longrightarrow>
   do_block n (s, buf) = Some (foldl DO1 s (take (16 * n) buf), drop (16 * n) buf)"
proof (induction n arbitrary: s buf)
  case 0
  then show ?case by simp
next
  case (Suc n)
  have "take (16 * Suc n) buf = take 16 buf @ take (16 * n) (drop 16 buf)"
    using take_add [of 16 "16 * n" buf] by (simp add: algebra_simps)
  with Suc show ?case by (simp add: DO16_def split_at_le add.commute)
qed

declare nmax_blocks.simps [simp del] by16.simps [simp del]

lemma nmax_blocks_eq:
  assumes "reduced (nats s)" "len \<le> length buf"
  defines "k \<equiv> NMAX * (len div NMAX)"
  shows "\<exists>s'. nmax_blocks (s, buf) len = Some ((s', drop k buf), len - k)
            \<and> nats s' = red (nats s) (take k buf)"
  unfolding k_def using assms(1,2)
proof (induction len arbitrary: s buf rule: less_induct)
  case (less len)
  show ?case
  proof (cases "len \<ge> NMAX")
    case False
    with less.prems show ?thesis by (simp add: nmax_blocks.simps [of _ len])
  next
    case True
    let ?t = "MOD_pair (foldl DO1 s (take NMAX buf))"
    let ?k = "NMAX * ((len - NMAX) div NMAX)"
    have N: "16 * (NMAX div 16) = NMAX" "0 < NMAX" by (simp_all add: NMAX_def)
    have t: "nats ?t = red (nats s) (take NMAX buf)"
      using less.prems by (intro MOD_block) auto
    have "\<exists>s'. nmax_blocks (?t, drop NMAX buf) (len - NMAX)
             = Some ((s', drop ?k (drop NMAX buf)), len - NMAX - ?k)
             \<and> nats s' = red (nats ?t) (take ?k (drop NMAX buf))"
      using less.prems True N t by (intro less.IH) auto
    moreover have "NMAX * (len div NMAX) = NMAX + ?k"
      using True N by (simp add: le_div_geq)
    moreover have "do_block (NMAX div 16) (s, buf) = Some (foldl DO1 s (take NMAX buf), drop NMAX buf)"
      using do_block_eq [of "NMAX div 16" buf s] less.prems True N by simp
    ultimately show ?thesis
      using True t by (auto simp: nmax_blocks.simps [of _ len] red_append take_add add.commute)
  qed
qed

lemma by16_eq:
  "len \<le> length buf \<Longrightarrow>
   by16 (s, buf) len =
     Some ((foldl DO1 s (take (16 * (len div 16)) buf), drop (16 * (len div 16)) buf), len mod 16)"
proof (induction len arbitrary: s buf rule: less_induct)
  case (less len)
  show ?case
  proof (cases "len \<ge> 16")
    case False
    with less.prems show ?thesis by (simp add: by16.simps [of _ len])
  next
    case True
    let ?k = "16 * ((len - 16) div 16)"
    have "by16 (foldl DO1 s (take 16 buf), drop 16 buf) (len - 16) =
        Some ((foldl DO1 (foldl DO1 s (take 16 buf)) (take ?k (drop 16 buf)), drop ?k (drop 16 buf)), (len - 16) mod 16)"
      using less.prems True by (intro less.IH) auto
    moreover have "16 * (len div 16) = 16 + ?k" and "(len - 16) mod 16 = len mod 16"
      using True by (simp_all add: le_div_geq le_mod_geq)
    ultimately show ?thesis
      using less.prems True
      by (simp add: by16.simps [of _ len] DO16_def split_at_le take_add add.commute)
  qed
qed

lemma unat_recombine:
  "reduced (nats s) \<Longrightarrow> unat (recombine s) = snd (nats s) * 65536 + fst (nats s)"
  unfolding recombine_def nats_def reduced_def
  by (subst unat_or_push_bit) auto

lemma recombine_parts:
  assumes "reduced (nats s)"
  shows "parts (recombine s) = nats s" and "valid_adler (recombine s)"
  using assms by (simp_all add: parts_def valid_adler_def unat_recombine reduced_def)

lemma start_parts:
  "valid_adler c \<Longrightarrow> nats (c AND 0xffff, drop_bit 16 c AND 0xffff) = parts c"
  by (simp add: nats_def parts_def valid_adler_def unat_and_ffff unat_drop_bit)

lemma reduced_parts: "valid_adler c \<Longrightarrow> reduced (parts c)"
  by (simp add: reduced_def parts_def valid_adler_def)

lemma unat_subtract_BASE:
  assumes "unat a < 131042"
  shows "unat (if BASE \<le> a then a - BASE else a) = unat a mod 65521"
proof (cases "BASE \<le> a")
  case True
  then have "65521 \<le> unat a" by (simp add: word_le_nat_alt)
  with True assms show ?thesis by (simp add: unat_diff_no_wrap le_mod_geq)
next
  case False
  then have "unat a < 65521" by (simp add: word_le_nat_alt)
  with False show ?thesis by simp
qed

text \<open>What the three length ranges of the code have in common: the new component sums.\<close>

definition adler_result :: "u64 \<Rightarrow> bytes \<Rightarrow> u64 option \<Rightarrow> bool" where
  "adler_result c xs r \<longleftrightarrow> (\<exists>s. r = Some (recombine s) \<and> nats s = red (parts c) xs)"

lemma adler_result_one:
  assumes "valid_adler c" "p \<noteq> []"
  shows "adler_result c (take 1 p) (adler32 c (Some p) 1)"
proof -
  let ?s = "(c AND 0xffff, drop_bit 16 c AND 0xffff)" and ?x = "p ! 0"
  have s: "nats ?s = parts c" and b: "reduced (parts c)"
    using assms by (simp_all add: start_parts reduced_parts)
  let ?a = "fst ?s + ucast ?x"
  let ?a' = "if BASE \<le> ?a then ?a - BASE else ?a"
  let ?b = "snd ?s + ?a'"
  let ?b' = "if BASE \<le> ?b then ?b - BASE else ?b"
  have x: "unat ?x \<le> 255" by (rule unat_byte_le)
  have s': "unat (fst ?s) = fst (parts c)" "unat (snd ?s) = snd (parts c)"
    using s by (simp_all add: nats_def prod_eq_iff)
  have "unat ?a = fst (parts c) + unat ?x"
    using s' b x by (subst unat_add_no_wrap) (auto simp: reduced_def)
  then have a: "unat ?a' = (fst (parts c) + unat ?x) mod 65521"
    using b x by (subst unat_subtract_BASE) (auto simp: reduced_def)
  then have "unat ?b = snd (parts c) + (fst (parts c) + unat ?x) mod 65521"
    using s' b by (subst unat_add_no_wrap) (auto simp: reduced_def)
  moreover have "(fst (parts c) + unat ?x) mod 65521 < 65521"
    by simp
  ultimately have "unat ?b' = (snd (parts c) + (fst (parts c) + unat ?x) mod 65521) mod 65521"
    using b by (subst unat_subtract_BASE) (auto simp: reduced_def)
  with a have "nats (?a', ?b') = red (parts c) [?x]"
    by (simp add: nats_def red_def mod_add_right_eq)
  moreover have "adler32 c (Some p) 1 = Some (recombine (?a', ?b'))"
    using assms(2) unfolding adler32_def Let_def by (simp add: rd_in)
  moreover have "take 1 p = [?x]" using assms(2) by (cases p) auto
  ultimately show ?thesis unfolding adler_result_def by metis
qed

lemma adler_result_short:
  assumes "valid_adler c" "len \<le> length p" "len < 16" "len \<noteq> 1"
  shows "adler_result c (take len p) (adler32 c (Some p) len)"
proof -
  let ?s = "(c AND 0xffff, drop_bit 16 c AND 0xffff)" and ?xs = "take len p"
  obtain a b where ab: "foldl DO1 ?s ?xs = (a, b)" by (cases "foldl DO1 ?s ?xs") auto
  have s: "nats ?s = parts c" and r: "reduced (parts c)"
    using assms by (simp_all add: start_parts reduced_parts)
  have n: "nats (a, b) = sums (parts c) ?xs"
    using foldl_DO1_block [of ?s ?xs] s r ab assms by (simp add: NMAX_def)
  have "fst (sums (parts c) ?xs) \<le> 65520 + 255 * length ?xs"
    using r by (intro sums_bound(1) [where b = 65520]) (auto simp: reduced_def)
  then have "unat a < 131042" using n assms by (simp add: nats_def prod_eq_iff)
  then have "nats (if BASE \<le> a then a - BASE else a, b mod BASE) = red (parts c) ?xs"
    using n by (simp add: nats_def red_def unat_subtract_BASE unat_mod prod_eq_iff del: if_split)
  moreover have "adler32 c (Some p) len
      = Some (recombine (if BASE \<le> a then a - BASE else a, b mod BASE))"
    using assms ab unfolding adler32_def Let_def by (simp add: by1_def split_at_le)
  ultimately show ?thesis unfolding adler_result_def by metis
qed

lemma adler_result_long:
  assumes "valid_adler c" "len \<le> length p" "16 \<le> len"
  shows "adler_result c (take len p) (adler32 c (Some p) len)"
proof -
  let ?s = "(c AND 0xffff, drop_bit 16 c AND 0xffff)"
  let ?k = "NMAX * (len div NMAX)" and ?m = "len mod NMAX"
  have s: "nats ?s = parts c" and r: "reduced (parts c)"
    using assms by (simp_all add: start_parts reduced_parts)
  obtain s' where N: "nmax_blocks (?s, p) len = Some ((s', drop ?k p), ?m)"
    and s': "nats s' = red (parts c) (take ?k p)"
    using nmax_blocks_eq [of ?s len p] s r assms by (auto simp: minus_mult_div_eq_mod)
  have m: "?m < NMAX" by (simp add: NMAX_def)
  have "?k + ?m = len" by simp
  then have split: "take len p = take ?k p @ take ?m (drop ?k p)"
    using take_add [of ?k ?m p] by metis
  show ?thesis
  proof (cases "?m = 0")
    case True
    then have "adler32 c (Some p) len = Some (recombine s')"
      using assms N unfolding adler32_def Let_def by simp
    moreover have "nats s' = red (parts c) (take len p)"
      using s' split True by simp
    ultimately show ?thesis unfolding adler_result_def by blast
  next
    case False
    let ?buf = "drop ?k p" and ?j = "16 * (?m div 16)"
    let ?t = "foldl DO1 s' (take ?m ?buf)"
    have le: "?m \<le> length ?buf" using assms(2) \<open>?k + ?m = len\<close> unfolding length_drop by linarith
    have "by16 (s', ?buf) ?m = Some ((foldl DO1 s' (take ?j ?buf), drop ?j ?buf), ?m mod 16)"
      by (rule by16_eq [OF le])
    moreover have "by1 (foldl DO1 s' (take ?j ?buf), drop ?j ?buf) (?m mod 16) = Some ?t"
    proof -
      have "take ?m ?buf = take ?j ?buf @ take (?m mod 16) (drop ?j ?buf)"
        using take_add [of ?j "?m mod 16" ?buf] by simp
      moreover have "?m mod 16 \<le> length (drop ?j ?buf)"
        using le by (metis diff_le_mono length_drop minus_mult_div_eq_mod)
      ultimately show ?thesis by (simp add: by1_def split_at_le)
    qed
    ultimately have "adler32 c (Some p) len = Some (recombine (MOD_pair ?t))"
      using assms N False unfolding adler32_def Let_def by simp
    moreover have "nats (MOD_pair ?t) = red (parts c) (take len p)"
      using m s' by (subst MOD_block) (simp_all add: red_append split)
    ultimately show ?thesis unfolding adler_result_def by blast
  qed
qed

lemma adler_result_all:
  "valid_adler c \<Longrightarrow> len \<le> length p \<Longrightarrow> adler_result c (take len p) (adler32 c (Some p) len)"
  using adler_result_one [of c p] adler_result_short [of c len p] adler_result_long [of c len p]
  by (cases "len = 1"; cases "len < 16"; cases p) auto

lemma adler32_value:
  assumes "valid_adler c" "len \<le> length p"
  obtains c' where "adler32 c (Some p) len = Some c'" "valid_adler c'"
    "parts c' = red (parts c) (take len p)"
proof -
  obtain s where "adler32 c (Some p) len = Some (recombine s)" "nats s = red (parts c) (take len p)"
    using adler_result_all [OF assms] unfolding adler_result_def by blast
  with that recombine_parts [of s] show thesis by simp
qed

lemma unat_parts: "unat c = snd (parts c) * 65536 + fst (parts c)"
  by (simp add: parts_def)

lemma parts_inject: "parts c = parts d \<Longrightarrow> c = d"
  by (simp add: word_unat_eq_iff unat_parts)

text \<open>C3: on every buffer, of any length, and from every valid running value, \<open>adler32\<close>
  stays inside the buffer and returns the checksum of RFC 1950 of the old and the new
  bytes: deferring the remainders over \<open>NMAX\<close> bytes, the unrolled loops and the two
  short paths change nothing.\<close>

theorem adler32_is_rfc1950:
  assumes "valid_adler c" "len \<le> length p"
  shows "\<exists>c'. adler32 c (Some p) len = Some c' \<and> valid_adler c'
    \<and> unat c' = rfc_adler (parts c) (take len p)"
  using adler32_value [OF assms] by (metis red_def rfc_adler_def unat_parts fst_conv snd_conv)

theorem adler32_is_rfc1950_witness:
  "\<exists>c'. adler32 1 (Some [0x57, 0x69, 0x6b, 0x69]) 4 = Some c' \<and> valid_adler c'
    \<and> unat c' = rfc_adler (parts 1) (take 4 [0x57, 0x69, 0x6b, 0x69])"
  by (rule adler32_is_rfc1950) (simp_all add: valid_adler_def)

text \<open>C31: within a block of at most \<open>NMAX\<close> bytes no component sum reaches \<open>2^32\<close>
  before the remainder is taken, as the comment on \<open>NMAX\<close> claims.\<close>

theorem adler32_block_no_overflow:
  assumes "reduced (nats s)" "length xs \<le> NMAX"
  shows "nats (foldl DO1 s xs) = sums (nats s) xs
    \<and> unat (fst (foldl DO1 s xs)) < 2 ^ 32 \<and> unat (snd (foldl DO1 s xs)) < 2 ^ 32"
  using foldl_DO1_block [OF assms] block_bound [OF assms] by (simp add: nats_def prod_eq_iff)

theorem adler32_block_no_overflow_witness:
  "nats (foldl DO1 (65520, 65520) (replicate 5552 255)) = sums (nats (65520, 65520)) (replicate 5552 255)
    \<and> unat (fst (foldl DO1 (65520, 65520) (replicate 5552 255))) < 2 ^ 32
    \<and> unat (snd (foldl DO1 (65520, 65520) (replicate 5552 255))) < 2 ^ 32"
  by (rule adler32_block_no_overflow) (simp_all add: reduced_def nats_def NMAX_def)

section \<open>Chunks and concatenation\<close>

lemma valid_start: "valid_adler 1"
  by (simp add: valid_adler_def)

lemma adler32_append:
  assumes "valid_adler c"
  shows "adler32 c (Some (xs @ ys)) (length (xs @ ys)) =
    adler32 c (Some xs) (length xs) \<bind> (\<lambda>d. adler32 d (Some ys) (length ys))"
proof -
  obtain d where d: "adler32 c (Some xs) (length xs) = Some d" "valid_adler d" "parts d = red (parts c) xs"
    by (rule adler32_value [OF assms, of "length xs" xs]) auto
  obtain e where e: "adler32 d (Some ys) (length ys) = Some e" "parts e = red (parts d) ys"
    by (rule adler32_value [OF d(2), of "length ys" ys]) auto
  obtain f where f: "adler32 c (Some (xs @ ys)) (length (xs @ ys)) = Some f" "parts f = red (parts c) (xs @ ys)"
    by (rule adler32_value [OF assms, of "length (xs @ ys)" "xs @ ys"]) auto
  have "f = e"
    using d e f by (intro parts_inject) (simp add: red_append)
  with d e f show ?thesis by simp
qed

lemma adler32_empty: "valid_adler c \<Longrightarrow> adler32 c (Some []) 0 = Some c"
  by (rule adler32_value [of c 0 "[]"]) (auto intro: parts_inject simp: reduced_parts)

text \<open>\<open>adler32_combine_\<close>: conditional subtractions in place of a remainder.\<close>

lemma unat_cond_sub:
  "unat (if k \<le> a then a - k else a) = (if unat k \<le> unat a then unat a - unat k else unat (a :: u64))"
  by (simp add: word_le_nat_alt unat_diff_no_wrap)

lemma cond_sub_mod:
  assumes "k mod m = 0"
  shows "(if k \<le> n then n - k else n) mod m = n mod (m :: nat)"
proof (cases "k \<le> n")
  case True
  then have "n mod m = (n - k + k) mod m" by simp
  also have "\<dots> = (n - k) mod m" using assms by (simp add: mod_add_eq [symmetric, of _ k])
  finally show ?thesis using True by simp
qed simp

lemma cond_sub_twice:
  assumes "unat a < 3 * 65521"
  defines "b \<equiv> if BASE \<le> a then a - BASE else a"
  shows "unat (if BASE \<le> b then b - BASE else b) = unat a mod 65521"
proof -
  have "unat b < 131042" and m: "unat b mod 65521 = unat a mod 65521"
    unfolding b_def unat_cond_sub using assms(1) cond_sub_mod [of 65521 65521 "unat a"]
    by auto
  then show ?thesis by (simp add: unat_subtract_BASE del: if_split)
qed

lemma cond_sub_four:
  assumes "unat a < 4 * 65521"
  defines "b \<equiv> if push_bit 1 BASE \<le> a then a - push_bit 1 BASE else a"
  shows "unat (if BASE \<le> b then b - BASE else b) = unat a mod 65521"
proof -
  have k: "unat (push_bit 1 BASE) = 131042" by (simp add: BASE_def)
  have "unat b < 131042" and m: "unat b mod 65521 = unat a mod 65521"
    unfolding b_def unat_cond_sub k using assms(1) cond_sub_mod [of 131042 65521 "unat a"]
    by auto
  then show ?thesis by (simp add: unat_subtract_BASE del: if_split)
qed

lemma combine_sums:
  fixes a1 a2 b1 b2 r :: u64
  assumes "unat a1 < 65521" "unat b1 < 65521" "unat a2 < 65521" "unat b2 < 65521" "unat r < 65521"
  shows "unat (a1 + (a2 + BASE - 1)) = unat a1 + unat a2 + 65520"
    and "unat ((r * a1) mod BASE + (b1 + b2 + BASE - r))
       = unat r * unat a1 mod 65521 + (unat b1 + unat b2 + 65521 - unat r)"
proof -
  have "unat (a2 + BASE - 1) = unat a2 + 65520"
    using assms by (subst unat_diff_no_wrap) (simp_all add: unat_add_no_wrap)
  then show "unat (a1 + (a2 + BASE - 1)) = unat a1 + unat a2 + 65520"
    using assms by (subst unat_add_no_wrap) simp_all
  have "unat r * unat a1 \<le> 65521 * 65521"
    using assms by (intro mult_le_mono) auto
  then have 1: "unat ((r * a1) mod BASE) = unat r * unat a1 mod 65521"
    by (simp add: unat_mod unat_mult_no_wrap)
  have "unat (b1 + b2 + BASE) = unat b1 + unat b2 + 65521"
    using assms by (simp add: unat_add_no_wrap)
  then have "unat (b1 + b2 + BASE - r) = unat b1 + unat b2 + 65521 - unat r"
    using assms by (simp add: unat_diff_no_wrap)
  moreover have "unat r * unat a1 mod 65521 < 65521" by simp
  ultimately show "unat ((r * a1) mod BASE + (b1 + b2 + BASE - r))
       = unat r * unat a1 mod 65521 + (unat b1 + unat b2 + 65521 - unat r)"
    using assms 1 by (subst unat_add_no_wrap) (simp_all del: mod_less_divisor)
qed

lemma combine_parts:
  assumes v: "valid_adler c1" "valid_adler c2" and p: "parts c1 = (a1, b1)" "parts c2 = (a2, b2)"
  shows "parts (adler32_combine_impl c1 c2 (int n)) =
     ((a1 + a2 + 65520) mod 65521, (n mod 65521 * a1 + (b1 + b2 + (65521 - n mod 65521))) mod 65521)"
proof -
  let ?a1 = "c1 AND 0xffff" and ?b1 = "drop_bit 16 c1 AND 0xffff"
  let ?a2 = "c2 AND 0xffff" and ?b2 = "drop_bit 16 c2 AND 0xffff"
  let ?r = "word_of_int (int n mod 65521) :: u32" and ?m = "n mod 65521"
  have u: "unat ?a1 = a1" "unat ?b1 = b1" "unat ?a2 = a2" "unat ?b2 = b2"
    using start_parts [OF v(1)] start_parts [OF v(2)] p by (simp_all add: nats_def)
  have l: "a1 < 65521" "b1 < 65521" "a2 < 65521" "b2 < 65521"
    using reduced_parts [OF v(1)] reduced_parts [OF v(2)] p by (simp_all add: reduced_def)
  have ml: "?m < 65521" by simp
  have "?r = word_of_nat ?m" by (metis of_int_of_nat_eq of_nat_mod of_nat_numeral)
  then have r: "unat (ucast ?r :: u64) = ?m"
    using ml by (simp add: unsigned_ucast_eq take_bit_nat_eq_self unat_of_nat del: mod_less_divisor)
  let ?x = "?a1 + (?a2 + BASE - 1)" and ?y = "(ucast ?r * ?a1) mod BASE + (?b1 + ?b2 + BASE - ucast ?r)"
  have x: "unat ?x = a1 + a2 + 65520" and y: "unat ?y = ?m * a1 mod 65521 + (b1 + b2 + 65521 - ?m)"
    using combine_sums [of ?a1 ?b1 ?a2 ?b2 "ucast ?r"] u l r ml by (simp_all del: mod_less_divisor)
  define s where "s = (let x = (if BASE \<le> ?x then ?x - BASE else ?x) in if BASE \<le> x then x - BASE else x,
     let y = (if push_bit 1 BASE \<le> ?y then ?y - push_bit 1 BASE else ?y) in if BASE \<le> y then y - BASE else y)"
  have "unat ?x < 3 * 65521" using x l by linarith
  then have f: "fst (nats s) = (a1 + a2 + 65520) mod 65521"
    unfolding s_def Let_def nats_def fst_conv using x by (subst cond_sub_twice) simp_all
  have "?m * a1 mod 65521 < 65521" by simp
  then have "unat ?y < 4 * 65521" using y l ml by linarith
  then have "snd (nats s) = (?m * a1 mod 65521 + (b1 + b2 + 65521 - ?m)) mod 65521"
    unfolding s_def Let_def nats_def snd_conv by (subst cond_sub_four) (simp_all only: y)
  also have "\<dots> = (?m * a1 + (b1 + b2 + (65521 - ?m))) mod 65521"
    using ml by (simp only: mod_add_left_eq) (simp del: mod_less_divisor)
  finally have n: "nats s = ((a1 + a2 + 65520) mod 65521, (?m * a1 + (b1 + b2 + (65521 - ?m))) mod 65521)"
    using f by (simp add: prod_eq_iff)
  have "adler32_combine_impl c1 c2 (int n) = recombine s"
    by (simp add: adler32_combine_impl_def s_def Let_def)
  with n recombine_parts(1) [of s] show ?thesis by (simp add: reduced_def)
qed

lemma red_from_start:
  assumes "red (1, 0) xs = (a1, b1)" "red (1, 0) ys = (a2, b2)"
  shows "red (1, 0) (xs @ ys) = ((a1 + a2 + 65520) mod 65521,
     (length ys mod 65521 * a1 + (b1 + b2 + (65521 - length ys mod 65521))) mod 65521)"
proof -
  let ?M = "65521 :: nat" and ?n = "length ys"
  define S where "S = (\<Sum>y\<leftarrow>ys. unat y)"
  define T where "T = snd (sums (0, 0) ys)"
  have a2: "a2 = (1 + S) mod ?M" and b2: "b2 = (?n + T) mod ?M"
    using assms(2) snd_sums_eq [of "(1, 0)" ys] by (auto simp: red_def fst_sums S_def T_def)
  have "red (1, 0) (xs @ ys) = red (a1, b1) ys"
    using assms(1) red_append [of "(1, 0)" xs ys] by simp
  also have "\<dots> = ((a1 + S) mod ?M, (b1 + ?n * a1 + T) mod ?M)"
    using snd_sums_eq [of "(a1, b1)" ys] by (simp add: red_def fst_sums S_def T_def)
  also have "(a1 + S) mod ?M = (a1 + a2 + 65520) mod ?M"
  proof -
    have "(a1 + S) mod ?M = (a1 + 65520 + (1 + S)) mod ?M"
      using mod_add_self2 [of "a1 + S" ?M] by (simp add: add_ac)
    also have "\<dots> = (a1 + 65520 + a2) mod ?M"
      unfolding a2 by (rule mod_add_right_eq [symmetric])
    finally show ?thesis by (simp add: add_ac)
  qed
  also have "(b1 + ?n * a1 + T) mod ?M = (?n mod ?M * a1 + (b1 + b2 + (?M - ?n mod ?M))) mod ?M"
  proof -
    define d where "d = ?M - ?n mod ?M"
    have "M * q + r = n \<Longrightarrow> r < M \<Longrightarrow> n + (M - r) = M * (q + 1)" for M q r n :: nat
      by auto
    then have "?n + d = ?M * (?n div ?M + 1)"
      unfolding d_def by (metis mod_less_divisor mult_div_mod_eq zero_less_numeral)
    then have "(?n * a1 + b1 + T + (?n + d)) mod ?M = (?n * a1 + b1 + T) mod ?M"
      by (metis mod_mult_self2)
    moreover have "(?n mod ?M * a1 + (b1 + b2 + d)) mod ?M = (?n * a1 + (b1 + (?n + T) + d)) mod ?M"
      unfolding b2 by (intro mod_add_cong mod_mult_cong) simp_all
    ultimately show ?thesis unfolding d_def [symmetric] by (simp add: add_ac mult.commute)
  qed
  finally show ?thesis .
qed

lemma adler32_combine_append:
  assumes "adler32 1 (Some xs) (length xs) = Some a" "adler32 1 (Some ys) (length ys) = Some b"
  shows "adler32 1 (Some (xs @ ys)) (length (xs @ ys)) = Some (adler32_combine a b (int (length ys)))"
proof -
  have 1: "parts 1 = (1, 0)" by (simp add: parts_def)
  have a: "valid_adler a" "parts a = red (1, 0) xs" and b: "valid_adler b" "parts b = red (1, 0) ys"
    using adler32_value [OF valid_start, of "length xs" xs] adler32_value [OF valid_start, of "length ys" ys]
      assms 1 by auto
  obtain c where c: "adler32 1 (Some (xs @ ys)) (length (xs @ ys)) = Some c" "parts c = red (1, 0) (xs @ ys)"
    using adler32_value [OF valid_start, of "length (xs @ ys)" "xs @ ys"] 1 by auto
  obtain a1 b1 a2 b2 where p: "red (1, 0) xs = (a1, b1)" "red (1, 0) ys = (a2, b2)"
    by (cases "red (1, 0) xs"; cases "red (1, 0) ys") auto
  have "parts (adler32_combine a b (int (length ys))) = parts c"
    unfolding adler32_combine_def c(2) red_from_start [OF p]
    by (rule combine_parts) (use a b p in simp_all)
  with c show ?thesis by (metis parts_inject)
qed

interpretation adler: combinable_checksum
  "\<lambda>c xs. adler32 c (Some xs) (length xs)" 1 valid_adler "\<lambda>a b n. Some (adler32_combine a b n)"
proof unfold_locales
  show "valid_adler 1" by (rule valid_start)
next
  fix c xs assume "valid_adler c"
  then show "\<exists>c'. adler32 c (Some xs) (length xs) = Some c' \<and> valid_adler c'"
    by (rule adler32_value [of c "length xs" xs]) auto
next
  fix c assume "valid_adler c"
  then show "adler32 c (Some []) (length []) = Some c" by (simp add: adler32_empty)
next
  fix c xs ys assume "valid_adler c"
  then show "adler32 c (Some (xs @ ys)) (length (xs @ ys)) =
      adler32 c (Some xs) (length xs) \<bind> (\<lambda>c'. adler32 c' (Some ys) (length ys))"
    by (rule adler32_append)
next
  fix xs ys a b
  assume "adler32 1 (Some xs) (length xs) = Some a" "adler32 1 (Some ys) (length ys) = Some b"
  then show "adler32 1 (Some (xs @ ys)) (length (xs @ ys)) = Some (adler32_combine a b (int (length ys)))"
    by (rule adler32_combine_append)
qed

text \<open>C4: the checksum of a concatenation is what \<open>adler32_combine\<close> computes from the
  checksums of the two parts and the length of the second, and combining three parts
  does not depend on the order of the two combinations.\<close>

theorem adler32_combine_correct:
  assumes "adler32 1 (Some xs) (length xs) = Some a" "adler32 1 (Some ys) (length ys) = Some b"
    and "adler32 1 (Some zs) (length zs) = Some c" "length ys + length zs < 2 ^ 63"
  shows "adler32 1 (Some (xs @ ys)) (length (xs @ ys)) = Some (adler32_combine a b (int (length ys)))
    \<and> adler32_combine (adler32_combine a b (int (length ys))) c (int (length zs))
      = adler32_combine a (adler32_combine b c (int (length zs))) (int (length ys + length zs))"
  using adler.comb_append [OF assms(1,2)] adler.comb_assoc [OF assms] assms(4) by simp

theorem adler32_combine_correct_witness:
  "adler32 1 (Some ([0x57, 0x69] @ [0x6b])) (length ([0x57, 0x69] @ [0x6b :: u8]))
     = Some (adler32_combine 0x011900C1 0x006C006C (int (length [0x6b :: u8])))
   \<and> adler32_combine (adler32_combine 0x011900C1 0x006C006C (int (length [0x6b :: u8]))) 0x006A006A (int (length [0x69 :: u8]))
     = adler32_combine 0x011900C1 (adler32_combine 0x006C006C 0x006A006A (int (length [0x69 :: u8])))
        (int (length [0x6b :: u8] + length [0x69 :: u8]))"
proof (rule adler32_combine_correct)
  show "adler32 1 (Some [0x57, 0x69]) (length [0x57, 0x69 :: u8]) = Some 0x011900C1"
    by code_simp
  show "adler32 1 (Some [0x6b]) (length [0x6b :: u8]) = Some 0x006C006C"
    by code_simp
  show "adler32 1 (Some [0x69]) (length [0x69 :: u8]) = Some 0x006A006A"
    by code_simp
qed simp

end
