(* ===== verification/Crc32.thy ===== *)
theory Crc32 imports Crc32_Tables Checksum begin

text \<open>
  \<^verbatim>\<open>libz_u/crc32.c\<close>.  \<open>z_crc_t\<close> is \<open>u32\<close>, \<open>unsigned long\<close> is \<open>u64\<close>, and \<open>BYFOUR\<close>
  is defined (\<open>Z_U4\<close> is).  Which of the three loops runs depends on the target: the
  byte order, and whether a pointer has the size of \<open>ptrdiff_t\<close>, which it has not in
  the pure-capability ABI of CHERI.  The lemmas show that all three loops, for every
  alignment of the buffer, compute the CRC of a bit-serial shift register, and that
  \<open>crc32_combine\<close> (matrices over GF(2)) computes the CRC of a concatenation.
\<close>

section \<open>The code\<close>

record target =
  big_endian :: bool
  sizeof_ptr :: nat
  sizeof_ptrdiff :: nat

text \<open>The macro \<open>DO1\<close>, and the loops around it.\<close>

definition crc_DO1 :: "u64 \<Rightarrow> u8 \<Rightarrow> u64" where
  "crc_DO1 crc b =
     ucast (crc_table ! 0 ! unat (((ucast crc :: u32) XOR ucast b) AND 0xff)) XOR drop_bit 8 crc"

definition crc32_bytewise :: "u64 \<Rightarrow> bytes \<Rightarrow> nat \<Rightarrow> u64 option" where
  "crc32_bytewise crc buf len =
     do { let crc = crc XOR 0xffffffff;
          (crc, buf, len) \<leftarrow> chunk_loop 8 (foldl crc_DO1) crc buf len;
          (crc, _) \<leftarrow> chunk_loop 1 (foldl crc_DO1) crc buf len;
          Some (crc XOR 0xffffffff) }"

text \<open>\<open>*buf4\<close> on either kind of machine.\<close>

definition load32_le :: "bytes \<Rightarrow> u32" where
  "load32_le bs = ucast (bs ! 0) OR push_bit 8 (ucast (bs ! 1))
     OR push_bit 16 (ucast (bs ! 2)) OR push_bit 24 (ucast (bs ! 3))"

definition load32_be :: "bytes \<Rightarrow> u32" where
  "load32_be bs = push_bit 24 (ucast (bs ! 0)) OR push_bit 16 (ucast (bs ! 1))
     OR push_bit 8 (ucast (bs ! 2)) OR ucast (bs ! 3)"

definition little_byte :: "u32 \<Rightarrow> u8 \<Rightarrow> u32" where
  "little_byte c b = crc_table ! 0 ! unat ((c XOR ucast b) AND 0xff) XOR drop_bit 8 c"

definition DOLIT4 :: "u32 \<Rightarrow> bytes \<Rightarrow> u32" where
  "DOLIT4 c bs = (let c = c XOR load32_le bs in
     crc_table ! 3 ! unat (c AND 0xff) XOR crc_table ! 2 ! unat (drop_bit 8 c AND 0xff) XOR
     crc_table ! 1 ! unat (drop_bit 16 c AND 0xff) XOR crc_table ! 0 ! unat (drop_bit 24 c))"

definition big_byte :: "u32 \<Rightarrow> u8 \<Rightarrow> u32" where
  "big_byte c b = crc_table ! 4 ! unat (drop_bit 24 c XOR ucast b) XOR push_bit 8 c"

definition DOBIG4 :: "u32 \<Rightarrow> bytes \<Rightarrow> u32" where
  "DOBIG4 c bs = (let c = c XOR load32_be bs in
     crc_table ! 4 ! unat (c AND 0xff) XOR crc_table ! 5 ! unat (drop_bit 8 c AND 0xff) XOR
     crc_table ! 6 ! unat (drop_bit 16 c AND 0xff) XOR crc_table ! 7 ! unat (drop_bit 24 c))"

text \<open>\<open>DOLIT32\<close> and \<open>DOBIG32\<close>: the four-byte step eight times.\<close>

definition eight_words :: "(u32 \<Rightarrow> bytes \<Rightarrow> u32) \<Rightarrow> u32 \<Rightarrow> bytes \<Rightarrow> u32" where
  "eight_words do4 c bs = foldl (\<lambda>c i. do4 c (take 4 (drop (4 * i) bs))) c [0..<8]"

text \<open>\<open>while (len && ((ptrdiff_t)buf & 3))\<close>, \<open>addr\<close> being the address in \<open>buf\<close>.\<close>

fun align_loop :: "(u32 \<Rightarrow> u8 \<Rightarrow> u32) \<Rightarrow> u32 \<Rightarrow> nat \<Rightarrow> bytes \<Rightarrow> nat \<Rightarrow> (u32 \<times> bytes \<times> nat) option" where
  "align_loop do1 c addr buf 0 = Some (c, buf, 0)"
| "align_loop do1 c addr buf (Suc len) =
     (if addr mod 4 \<noteq> 0 then
        (case buf of [] \<Rightarrow> None | b # buf' \<Rightarrow> align_loop do1 (do1 c b) (addr + 1) buf' len)
      else Some (c, buf, Suc len))"

text \<open>The common shape of \<open>crc32_little\<close> and \<open>crc32_big\<close> after \<open>c\<close> has been loaded.\<close>

definition by_four :: "(u32 \<Rightarrow> u8 \<Rightarrow> u32) \<Rightarrow> (u32 \<Rightarrow> bytes \<Rightarrow> u32) \<Rightarrow> u32 \<Rightarrow> nat \<Rightarrow> bytes \<Rightarrow> nat \<Rightarrow> u32 option" where
  "by_four do1 do4 c addr buf len =
     do { (c, buf, len) \<leftarrow> align_loop do1 c addr buf len;
          (c, buf, len) \<leftarrow> chunk_loop 32 (eight_words do4) c buf len;
          (c, buf, len) \<leftarrow> chunk_loop 4 do4 c buf len;
          (c, _) \<leftarrow> chunk_loop 1 (foldl do1) c buf len;
          Some c }"

definition crc32_little :: "u64 \<Rightarrow> nat \<Rightarrow> bytes \<Rightarrow> nat \<Rightarrow> u64 option" where
  "crc32_little crc addr buf len =
     do { c \<leftarrow> by_four little_byte DOLIT4 (NOT (ucast crc)) addr buf len;
          Some (ucast (NOT c)) }"

definition crc32_big :: "u64 \<Rightarrow> nat \<Rightarrow> bytes \<Rightarrow> nat \<Rightarrow> u64 option" where
  "crc32_big crc addr buf len =
     do { c \<leftarrow> by_four big_byte DOBIG4 (NOT (ZSWAP32 (ucast crc))) addr buf len;
          Some (ucast (ZSWAP32 (NOT c))) }"

definition crc32 :: "target \<Rightarrow> nat \<Rightarrow> u64 \<Rightarrow> bytes option \<Rightarrow> nat \<Rightarrow> u64 option" where
  "crc32 tg addr crc buf len =
     (case buf of
        None \<Rightarrow> Some 0
      | Some p \<Rightarrow>
          if sizeof_ptr tg = sizeof_ptrdiff tg then
            (if big_endian tg then crc32_big crc addr p len else crc32_little crc addr p len)
          else crc32_bytewise crc p len)"

section \<open>Combining two CRCs\<close>

definition GF2_DIM :: nat where "GF2_DIM = 32"

text \<open>\<open>while (vec)\<close>; running past the end of the matrix is \<open>None\<close>.\<close>

fun gf2_times :: "u64 \<Rightarrow> u64 list \<Rightarrow> u64 \<Rightarrow> u64 option" where
  "gf2_times acc [] vec = (if vec = 0 then Some acc else None)"
| "gf2_times acc (m # mat) vec =
     (if vec = 0 then Some acc
      else gf2_times (if vec AND 1 \<noteq> 0 then acc XOR m else acc) mat (drop_bit 1 vec))"

definition gf2_matrix_times :: "u64 list \<Rightarrow> u64 \<Rightarrow> u64 option" where
  "gf2_matrix_times mat vec = gf2_times 0 mat vec"

fun gf2_rows :: "u64 list \<Rightarrow> u64 list \<Rightarrow> u64 list option" where
  "gf2_rows mat [] = Some []"
| "gf2_rows mat (v # vs) =
     do { r \<leftarrow> gf2_matrix_times mat v; rs \<leftarrow> gf2_rows mat vs; Some (r # rs) }"

definition gf2_matrix_square :: "u64 list \<Rightarrow> u64 list option" where
  "gf2_matrix_square mat = gf2_rows mat (take GF2_DIM mat)"

text \<open>The operator for one zero bit: row 0 is the polynomial, row \<open>n\<close> is \<open>1 << (n - 1)\<close>.\<close>

definition one_zero_bit :: "u64 list" where
  "one_zero_bit = 0xedb88320 # map (\<lambda>n. push_bit n 1) [0..<31]"

text \<open>The do-while loop; \<open>odd_op\<close> and \<open>crc1\<close> at its head, and \<open>len2 > 0\<close>.\<close>

function combine_loop :: "u64 list \<Rightarrow> u64 \<Rightarrow> nat \<Rightarrow> u64 option" where
  "combine_loop odd_op crc1 len2 =
    do { even_op \<leftarrow> gf2_matrix_square odd_op;
         crc1 \<leftarrow> (if len2 mod 2 = 1 then gf2_matrix_times even_op crc1 else Some crc1);
         let len2 = len2 div 2;
         if len2 = 0 then Some crc1
         else do {
           odd_op \<leftarrow> gf2_matrix_square even_op;
           crc1 \<leftarrow> (if len2 mod 2 = 1 then gf2_matrix_times odd_op crc1 else Some crc1);
           let len2 = len2 div 2;
           if len2 \<noteq> 0 then combine_loop odd_op crc1 len2 else Some crc1 } }"
  by pat_completeness auto
termination
  by (relation "measure (\<lambda>(odd, crc1, len2). len2)") auto

definition crc32_combine_impl :: "u64 \<Rightarrow> u64 \<Rightarrow> int \<Rightarrow> u64 option" where
  "crc32_combine_impl crc1 crc2 len2 =
    (if len2 \<le> 0 then Some crc1
     else do {
       even_op \<leftarrow> gf2_matrix_square one_zero_bit;
       odd_op \<leftarrow> gf2_matrix_square even_op;
       crc1 \<leftarrow> combine_loop odd_op crc1 (nat len2);
       Some (crc1 XOR crc2) })"

definition crc32_combine :: "u64 \<Rightarrow> u64 \<Rightarrow> int \<Rightarrow> u64 option" where
  "crc32_combine crc1 crc2 len2 = crc32_combine_impl crc1 crc2 len2"

definition crc32_combine64 :: "u64 \<Rightarrow> u64 \<Rightarrow> int \<Rightarrow> u64 option" where
  "crc32_combine64 crc1 crc2 len2 = crc32_combine_impl crc1 crc2 len2"

section \<open>The shift register on bytes\<close>

text \<open>The reference: one byte is exclusive-ored into the low bits of the register, which
  then shifts eight times; the CRC is the register between two complements.\<close>

definition crc_step :: "u32 \<Rightarrow> u8 \<Rightarrow> u32" where
  "crc_step c b = crc_shifts 8 (c XOR ucast b)"

definition crc_spec :: "u32 \<Rightarrow> bytes \<Rightarrow> u32" where
  "crc_spec c xs = NOT (foldl crc_step (NOT c) xs)"

lemma crc_shifts_8_more: "crc_shifts (k + 8) y = crc_shifts (k + 8) (y AND 0xff) XOR crc_shifts k (drop_bit 8 y)"
proof -
  have "crc_shifts 8 y = crc_shifts 8 (y AND 0xff) XOR drop_bit 8 y"
    using crc_shifts_split [of 8 y] by (simp add: ff_is_mask take_bit_eq_mask)
  then show ?thesis by (simp add: crc_shifts_add crc_shifts_xor)
qed

lemma crc_shifts_push: "crc_shifts (k + 8 * j) (push_bit (8 * j) (ucast (b :: u8))) = crc_shifts k (ucast b)"
  if "j < 4"
proof -
  have "crc_shifts (8 * j) (push_bit (8 * j) (ucast b)) = drop_bit (8 * j) (push_bit (8 * j) (ucast b))"
    by (rule crc_shifts_low_zero) (simp add: bit_push_bit_iff)
  also have "\<dots> = ucast b"
    using that by (intro bit_word_eqI) (auto simp: bit_simps dest: bit_imp_le_length)
  finally show ?thesis by (simp add: crc_shifts_add)
qed

lemma rows_of_crc_table:
  "crc_table ! 0 = shift_row 8" "crc_table ! Suc 0 = shift_row 16" "crc_table ! 2 = shift_row 24"
  "crc_table ! 3 = shift_row 32" "crc_table ! 4 = map ZSWAP32 (shift_row 8)"
  "crc_table ! 5 = map ZSWAP32 (shift_row 16)" "crc_table ! 6 = map ZSWAP32 (shift_row 24)"
  "crc_table ! 7 = map ZSWAP32 (shift_row 32)"
  by (simp_all add: crc_table_rows make_crc_table_rows)

lemma shift_row_at: "unat w < 256 \<Longrightarrow> shift_row k ! unat w = crc_shifts k w"
  and swapped_row_at: "unat w < 256 \<Longrightarrow> map ZSWAP32 (shift_row k) ! unat w = ZSWAP32 (crc_shifts k w)"
  by (simp_all add: shift_row_def)

lemma unat_and_ff: "unat ((w :: u32) AND 0xff) < 256"
  by (simp only: ff_is_mask unat_and_mask) simp

lemma unat_top_byte: "unat (drop_bit 24 (w :: u32)) < 256"
proof -
  have "unat w < 2 ^ 32" using unsigned_less [of w] by simp
  then show ?thesis by (simp add: unat_drop_bit)
qed

lemmas table_lookups =
  rows_of_crc_table shift_row_at swapped_row_at unat_and_ff unat_top_byte

section \<open>The little-endian loop\<close>

lemma little_byte_step: "little_byte c b = crc_step c b"
  using crc_shifts_8_more [of 0 "c XOR ucast b"]
proof -
  have "drop_bit 8 (c XOR ucast b) = drop_bit 8 c"
    by (rule bit_word_eqI) (auto simp: bit_simps dest: bit_imp_le_length)
  then show ?thesis
    using crc_shifts_8_more [of 0 "c XOR ucast b"]
    by (simp add: little_byte_def crc_step_def table_lookups)
qed

lemma crc_shifts_32:
  "crc_shifts 32 (y AND 0xff) XOR crc_shifts 24 (drop_bit 8 y AND 0xff)
     XOR crc_shifts 16 (drop_bit 16 y AND 0xff) XOR crc_shifts 8 (drop_bit 24 y) = crc_shifts 32 y"
  using crc_shifts_8_more [of 24 y] crc_shifts_8_more [of 16 "drop_bit 8 y"]
    crc_shifts_8_more [of 8 "drop_bit 16 y"] by (simp add: xor.assoc)

lemma load32_le_xor:
  "load32_le bs = ucast (bs ! 0) XOR push_bit 8 (ucast (bs ! 1))
     XOR push_bit 16 (ucast (bs ! 2)) XOR push_bit 24 (ucast (bs ! 3))"
  unfolding load32_le_def by (rule bit_word_eqI) (auto simp: bit_simps dest: bit_imp_le_length)

lemma four_steps:
  assumes "length bs = 4"
  shows "crc_shifts 32 (c XOR load32_le bs) = foldl crc_step c bs"
proof -
  obtain b0 b1 b2 b3 where bs: "bs = [b0, b1, b2, b3]"
    using assms by (auto simp: length_Suc_conv numeral_eq_Suc)
  have "foldl crc_step c bs
      = crc_shifts 32 (c XOR ucast b0) XOR crc_shifts 24 (ucast b1)
        XOR crc_shifts 16 (ucast b2) XOR crc_shifts 8 (ucast b3)"
    using crc_shifts_add [of 8 8] crc_shifts_add [of 8 16] crc_shifts_add [of 8 24]
    by (simp add: bs crc_step_def crc_shifts_xor xor.assoc)
  also have "\<dots> = crc_shifts 32 (c XOR load32_le bs)"
    using crc_shifts_push [of 1 24 b1] crc_shifts_push [of 2 16 b2] crc_shifts_push [of 3 8 b3]
    by (simp add: bs load32_le_xor crc_shifts_xor xor.assoc)
  finally show ?thesis ..
qed

lemma little_lookup:
  "crc_table ! 3 ! unat (y AND 0xff) XOR crc_table ! 2 ! unat (drop_bit 8 y AND 0xff) XOR
   crc_table ! 1 ! unat (drop_bit 16 y AND 0xff) XOR crc_table ! 0 ! unat (drop_bit 24 y)
   = crc_shifts 32 y"
  by (simp add: table_lookups crc_shifts_32)

lemma DOLIT4_steps: "length bs = 4 \<Longrightarrow> DOLIT4 c bs = foldl crc_step c bs"
  by (simp only: DOLIT4_def Let_def little_lookup four_steps)

section \<open>The big-endian loop\<close>

text \<open>The register is kept byte-swapped; swapping it back gives the little-endian one.\<close>

lemma bit_ZSWAP32:
  "n < 32 \<Longrightarrow> bit (ZSWAP32 q) n =
    (if n < 8 then bit q (n + 24) else if n < 16 then bit q (n + 8)
     else if n < 24 then bit q (n - 8) else bit q (n - 24))"
proof -
  have m: "(0xff :: u32) = mask 8" "(0xff00 :: u32) = push_bit 8 (mask 8)"
    by (simp_all add: mask_eq_exp_minus_1)
  assume "n < 32"
  then show ?thesis
    unfolding ZSWAP32_eq_xor m by (auto simp: bit_simps add.commute)
qed

lemma bit_ZSWAP32_iff:
  "bit (ZSWAP32 q) n \<longleftrightarrow> n < 32 \<and>
    (if n < 8 then bit q (n + 24) else if n < 16 then bit q (n + 8)
     else if n < 24 then bit q (n - 8) else bit q (n - 24))"
  using bit_ZSWAP32 [of n q] by (cases "n < 32") (auto dest: bit_imp_le_length)

lemma ZSWAP32_involution: "ZSWAP32 (ZSWAP32 q) = q"
  by (rule bit_word_eqI) (auto simp: bit_ZSWAP32)

lemma ZSWAP32_NOT: "ZSWAP32 (NOT q) = NOT (ZSWAP32 q)"
  by (rule bit_word_eqI) (auto simp: bit_ZSWAP32 bit_not_iff)

lemma ZSWAP32_bytes:
  "ZSWAP32 y AND 0xff = drop_bit 24 y"
  "drop_bit 8 (ZSWAP32 y) AND 0xff = drop_bit 16 y AND 0xff"
  "drop_bit 16 (ZSWAP32 y) AND 0xff = drop_bit 8 y AND 0xff"
  "drop_bit 24 (ZSWAP32 y) = y AND 0xff"
  "push_bit 8 (ZSWAP32 y) = ZSWAP32 (drop_bit 8 y)"
  unfolding ff_is_mask
  by (rule bit_word_eqI; auto simp: bit_simps bit_ZSWAP32_iff add.commute dest: bit_imp_le_length)+

lemma load32_be_swap: "load32_be bs = ZSWAP32 (load32_le bs)"
  unfolding load32_be_def load32_le_def
  by (rule bit_word_eqI) (auto simp: bit_simps bit_ZSWAP32 dest: bit_imp_le_length)

lemma big_byte_swap: "big_byte (ZSWAP32 c) b = ZSWAP32 (crc_step c b)"
proof -
  have "drop_bit 24 (ZSWAP32 c) XOR ucast b = (c XOR ucast b) AND 0xff"
    unfolding ZSWAP32_bytes ff_is_mask
    by (rule bit_word_eqI) (auto simp: bit_simps dest: bit_imp_le_length)
  moreover have "drop_bit 8 (c XOR ucast b) = drop_bit 8 c"
    by (rule bit_word_eqI) (auto simp: bit_simps dest: bit_imp_le_length)
  ultimately show ?thesis
    using crc_shifts_8_more [of 0 "c XOR ucast b"]
    by (simp add: big_byte_def crc_step_def table_lookups ZSWAP32_bytes ZSWAP32_xor)
qed

lemma DOBIG4_swap:
  assumes "length bs = 4"
  shows "DOBIG4 (ZSWAP32 c) bs = ZSWAP32 (foldl crc_step c bs)"
proof -
  define y where "y = c XOR load32_le bs"
  have "ZSWAP32 c XOR load32_be bs = ZSWAP32 y"
    by (simp add: y_def load32_be_swap ZSWAP32_xor)
  then have "DOBIG4 (ZSWAP32 c) bs = ZSWAP32 (crc_shifts 32 y)"
    by (simp add: DOBIG4_def Let_def ZSWAP32_bytes table_lookups flip: crc_shifts_32 [of y])
      (simp add: ZSWAP32_xor xor.assoc xor.commute xor.left_commute)
  with four_steps [OF assms, of c] show ?thesis by (simp add: y_def)
qed

section \<open>The loops over the buffer\<close>

lemma folds_align_loop: "len \<le> length buf \<Longrightarrow> folds f c buf len (align_loop f c addr buf len)"
proof (induction f c addr buf len rule: align_loop.induct)
  case (1 f c addr buf)
  then show ?case by (simp add: folds_def)
next
  case (2 f c addr buf len)
  show ?case
  proof (cases "addr mod 4 \<noteq> 0")
    case False
    then show ?thesis unfolding folds_def by (intro exI [of _ 0]) simp
  next
    case True
    with 2(2) obtain b bs where b: "buf = b # bs" by (cases buf) auto
    with 2(1) [OF True b] 2(2) obtain k where
      "k \<le> len" "align_loop f (f c b) (addr + 1) bs len = Some (foldl f (f c b) (take k bs), drop k bs, len - k)"
      by (auto simp: folds_def)
    with True b show ?thesis unfolding folds_def by (intro exI [of _ "Suc k"]) simp
  qed
qed

lemma eight_words_foldl:
  assumes "\<And>c bs. length bs = 4 \<Longrightarrow> do4 c bs = foldl f c bs" "length bs = 32"
  shows "eight_words do4 c bs = foldl f c bs"
proof -
  have "foldl (\<lambda>c i. do4 c (take 4 (drop (4 * i) bs))) c [0..<n] = foldl f c (take (4 * n) bs)"
    if "n \<le> 8" for n
    using that
  proof (induction n)
    case (Suc n)
    then have "length (take 4 (drop (4 * n) bs)) = 4" using assms(2) by simp
    moreover have "take (4 * Suc n) bs = take (4 * n) bs @ take 4 (drop (4 * n) bs)"
      using take_add [of "4 * n" 4 bs] by (simp add: add.commute)
    ultimately show ?case using Suc by (simp add: assms(1))
  qed simp
  from this [of 8] show ?thesis using assms(2) by (simp add: eight_words_def)
qed

lemma by_four_foldl:
  assumes "\<And>c bs. length bs = 4 \<Longrightarrow> do4 c bs = foldl f c bs" "len \<le> length buf"
  shows "by_four f do4 c addr buf len = Some (foldl f c (take len buf))"
proof -
  let ?r = "align_loop f c addr buf len
    \<bind> (\<lambda>(c, buf, len). chunk_loop 32 (eight_words do4) c buf len)
    \<bind> (\<lambda>(c, buf, len). chunk_loop 4 do4 c buf len)"
  have "folds f c buf len ?r"
    using assms
    by (intro folds_bind folds_align_loop)
      (auto intro!: folds_chunk_loop eight_words_foldl [OF assms(1)])
  then have "(?r \<bind> (\<lambda>(c, buf, len). chunk_loop 1 (foldl f) c buf len))
      = Some (foldl f c (take len buf), drop len buf, 0)"
    by (rule folds_finish [OF _ assms(2)])
  moreover have "by_four f do4 c addr buf len
      = (?r \<bind> (\<lambda>(c, buf, len). chunk_loop 1 (foldl f) c buf len)) \<bind> (\<lambda>p. Some (fst p))"
    by (simp add: by_four_def split_def)
  ultimately show ?thesis by simp
qed

section \<open>The three functions\<close>

lemma crc32_little_spec:
  "len \<le> length buf \<Longrightarrow> crc32_little (ucast c) addr buf len = Some (ucast (crc_spec c (take len buf)))"
proof -
  assume le: "len \<le> length buf"
  have "little_byte = crc_step" by (intro ext) (rule little_byte_step)
  then have "by_four little_byte DOLIT4 (NOT c) addr buf len = Some (foldl crc_step (NOT c) (take len buf))"
    by (simp add: by_four_foldl [OF DOLIT4_steps le])
  then show ?thesis by (simp add: crc32_little_def crc_spec_def)
qed

lemma foldl_swapped:
  "foldl (\<lambda>c b. ZSWAP32 (crc_step (ZSWAP32 c) b)) (ZSWAP32 c) xs = ZSWAP32 (foldl crc_step c xs)"
  by (induction xs arbitrary: c) (simp_all add: ZSWAP32_involution)

lemma crc32_big_spec:
  "len \<le> length buf \<Longrightarrow> crc32_big (ucast c) addr buf len = Some (ucast (crc_spec c (take len buf)))"
proof -
  assume le: "len \<le> length buf"
  let ?f = "\<lambda>c b. ZSWAP32 (crc_step (ZSWAP32 c) b)"
  have f: "big_byte = ?f"
    using big_byte_swap [of "ZSWAP32 c" for c] by (intro ext) (simp add: ZSWAP32_involution)
  have "DOBIG4 c bs = foldl ?f c bs" if "length bs = 4" for c bs
    using DOBIG4_swap [OF that, of "ZSWAP32 c"] foldl_swapped [of "ZSWAP32 c" bs]
    by (simp add: ZSWAP32_involution)
  then have "by_four big_byte DOBIG4 (NOT (ZSWAP32 c)) addr buf len
      = Some (foldl ?f (ZSWAP32 (NOT c)) (take len buf))"
    unfolding f by (simp add: by_four_foldl [OF _ le] ZSWAP32_NOT)
  then show ?thesis
    using foldl_swapped [of "NOT c" "take len buf"]
    by (simp add: crc32_big_def crc_spec_def ZSWAP32_NOT ZSWAP32_involution)
qed

lemma crc_DO1_step: "crc_DO1 (ucast c) b = ucast (crc_step c b)"
proof -
  have "crc_step c b = crc_table ! 0 ! unat ((c XOR ucast b) AND 0xff) XOR drop_bit 8 c"
    using little_byte_step [of c b] by (simp add: little_byte_def)
  moreover have "drop_bit 8 (ucast c :: u64) = ucast (drop_bit 8 c)"
    by (rule bit_word_eqI) (auto simp: bit_simps dest: bit_imp_le_length)
  ultimately show ?thesis by (simp add: crc_DO1_def unsigned_xor_eq)
qed

lemma foldl_crc_DO1: "foldl crc_DO1 (ucast c) xs = ucast (foldl crc_step c xs)"
  by (induction xs arbitrary: c) (simp_all add: crc_DO1_step)

lemma ucast_complement: "(ucast (c :: u32) :: u64) XOR 0xffffffff = ucast (NOT c)"
proof -
  have m: "(0xffffffff :: u64) = mask 32" by (simp add: mask_eq_exp_minus_1)
  show ?thesis
    unfolding m
    by (rule bit_word_eqI) (auto simp: bit_simps dest: bit_imp_le_length)
qed

lemma crc32_bytewise_spec:
  "len \<le> length buf \<Longrightarrow> crc32_bytewise (ucast c) buf len = Some (ucast (crc_spec c (take len buf)))"
proof -
  assume le: "len \<le> length buf"
  have "folds crc_DO1 (ucast (NOT c)) buf len (chunk_loop 8 (foldl crc_DO1) (ucast (NOT c)) buf len)"
    by (rule folds_chunk_loop [OF _ _ le]) simp_all
  from folds_finish [OF this le] show ?thesis
    by (auto simp: crc32_bytewise_def crc_spec_def ucast_complement foldl_crc_DO1 split_def
        split: Option.bind_splits)
qed

lemma crc32_value:
  "len \<le> length p \<Longrightarrow> crc32 tg addr (ucast c) (Some p) len = Some (ucast (crc_spec c (take len p)))"
  by (simp add: crc32_def crc32_little_spec crc32_big_spec crc32_bytewise_spec)

text \<open>C1: on every target (either byte order, and the pure-capability ABI, where the
  byte-wise loop runs), for every alignment of the buffer and every length inside it,
  \<open>crc32\<close> stays inside the buffer and its tables and returns the CRC of the bit-serial
  shift register.\<close>

theorem crc32_is_shift_register:
  assumes "len \<le> length p"
  shows "crc32 tg addr (ucast c) (Some p) len = Some (ucast (crc_spec c (take len p)))"
  using assms by (rule crc32_value)

theorem crc32_is_shift_register_witness:
  "crc32 \<lparr>big_endian = True, sizeof_ptr = 8, sizeof_ptrdiff = 8\<rparr> 3 (ucast (0 :: u32)) (Some [1, 2, 3, 4, 5, 6]) 6
    = Some (ucast (crc_spec 0 (take 6 [1, 2, 3, 4, 5, 6])))"
  by (rule crc32_is_shift_register) simp

section \<open>Matrices over GF(2)\<close>

text \<open>The matrix of a linear operator: row \<open>i\<close> is the image of \<open>2 ^ i\<close>.\<close>

definition matrix_of :: "(u32 \<Rightarrow> u32) \<Rightarrow> u64 list" where
  "matrix_of f = map (\<lambda>i. ucast (f (2 ^ i))) [0..<32]"

definition linear :: "(u32 \<Rightarrow> u32) \<Rightarrow> bool" where
  "linear f \<longleftrightarrow> (\<forall>a b. f (a XOR b) = f a XOR f b)"

lemma linear_0: "linear f \<Longrightarrow> f 0 = 0"
  unfolding linear_def by (metis xor_self_eq)

lemma high_part_step:
  "push_bit n (drop_bit n v) = (if bit v n then 2 ^ n else 0) XOR push_bit (Suc n) (drop_bit (Suc n) (v :: u32))"
proof (rule bit_word_eqI)
  fix k assume "k < LENGTH(32)"
  then show "bit (push_bit n (drop_bit n v)) k
    = bit ((if bit v n then 2 ^ n else 0) XOR push_bit (Suc n) (drop_bit (Suc n) v)) k"
    by (cases k n rule: linorder_cases)
      (auto simp: bit_simps simp del: push_bit_Suc dest: bit_imp_le_length)
qed

lemma gf2_times_high_part:
  assumes "linear f" "n \<le> 32"
  shows "gf2_times acc (drop n (matrix_of f)) (ucast (drop_bit n v))
    = Some (acc XOR ucast (f (push_bit n (drop_bit n v))))"
  using assms(2)
proof (induction "32 - n" arbitrary: n acc)
  case 0
  then have n: "n = 32" by simp
  have "drop_bit 32 v = 0" by (rule bit_word_eqI) (auto simp: bit_simps dest: bit_imp_le_length)
  then show ?case by (simp add: n matrix_of_def linear_0 [OF assms(1)])
next
  case (Suc k)
  then have n: "n < 32" by simp
  have row: "drop n (matrix_of f) = ucast (f (2 ^ n)) # drop (Suc n) (matrix_of f)"
    using n by (simp add: matrix_of_def Cons_nth_drop_Suc [symmetric])
  show ?case
  proof (cases "drop_bit n v = 0")
    case True
    then show ?thesis by (simp add: row linear_0 [OF assms(1)])
  next
    case False
    have nz: "(ucast (drop_bit n v) :: u64) \<noteq> 0"
      using False by (metis ucast_0 ucast_down_up)
    have b: "(ucast (drop_bit n v) :: u64) AND 1 \<noteq> 0 \<longleftrightarrow> bit v n"
      by (simp add: and_one_eq odd_iff_mod_2_eq_one [symmetric] bit_0 [symmetric] bit_simps)
    have d: "drop_bit 1 (ucast (drop_bit n v) :: u64) = ucast (drop_bit (Suc n) v)"
      by (rule bit_word_eqI) (auto simp: bit_simps add.commute dest: bit_imp_le_length)
    have IH: "gf2_times a (drop (Suc n) (matrix_of f)) (ucast (drop_bit (Suc n) v))
        = Some (a XOR ucast (f (push_bit (Suc n) (drop_bit (Suc n) v))))" for a
      using Suc by (intro Suc.hyps(1)) auto
    have "f (push_bit n (drop_bit n v)) =
        (if bit v n then f (2 ^ n) else 0) XOR f (push_bit (Suc n) (drop_bit (Suc n) v))"
      using assms(1) linear_0 [OF assms(1)] high_part_step [of n v] by (auto simp: linear_def)
    then show ?thesis
      unfolding row gf2_times.simps b d IH using nz
      by (simp add: unsigned_xor_eq xor.assoc)
  qed
qed

lemma gf2_matrix_times_of: "linear f \<Longrightarrow> gf2_matrix_times (matrix_of f) (ucast v) = Some (ucast (f v))"
  using gf2_times_high_part [of f 0 0 v] by (simp add: gf2_matrix_times_def)

lemma gf2_matrix_square_of:
  assumes "linear f"
  shows "gf2_matrix_square (matrix_of f) = Some (matrix_of (\<lambda>x. f (f x)))"
proof -
  have "gf2_rows (matrix_of f) (map (\<lambda>i. ucast (f (2 ^ i))) is) = Some (map (\<lambda>i. ucast (f (f (2 ^ i)))) is)"
    for "is" :: "nat list"
    by (induction "is") (simp_all add: gf2_matrix_times_of [OF assms])
  then show ?thesis
    by (simp add: gf2_matrix_square_def GF2_DIM_def matrix_of_def)
qed

lemma linear_crc_shifts [simp]: "linear (crc_shifts k)"
  by (simp add: linear_def crc_shifts_xor)

lemma square_crc_shifts: "gf2_matrix_square (matrix_of (crc_shifts k)) = Some (matrix_of (crc_shifts (2 * k)))"
  by (simp add: gf2_matrix_square_of mult_2 flip: crc_shifts_add)

lemma one_zero_bit_matrix: "one_zero_bit = matrix_of (crc_shifts 1)"
proof -
  have "crc_shift (2 ^ Suc n) = 2 ^ n" if "n < 31" for n
  proof -
    have "crc_shift (push_bit (Suc n) 1) = drop_bit 1 (push_bit (Suc n) 1)"
      by (simp add: crc_shift_bit bit_push_bit_iff del: push_bit_Suc push_bit_of_1)
    also have "\<dots> = push_bit n 1"
      using that by (intro bit_word_eqI) (auto simp: bit_simps)
    finally show ?thesis by (simp add: push_bit_of_1)
  qed
  moreover have "crc_shift 1 = 0xedb88320"
    by (simp add: crc_shift_eval)
  moreover have "[0..<32] = 0 # map Suc [0..<31]"
    by (simp add: map_Suc_upt upt_conv_Cons)
  moreover have "(ucast (2 ^ n :: u32) :: u64) = 2 ^ n" if "n < 31" for n
    using that unsigned_push_bit_eq [where 'a = "64 word", of n "1 :: u32"]
    by (intro bit_word_eqI) (auto simp: bit_simps)
  ultimately show ?thesis
    by (simp add: one_zero_bit_def matrix_of_def push_bit_of_1 comp_def)
qed

declare combine_loop.simps [simp del]

lemma combine_loop_shifts:
  "0 < n \<Longrightarrow> combine_loop (matrix_of (crc_shifts k)) (ucast c) n = Some (ucast (crc_shifts (2 * k * n) c))"
proof (induction n arbitrary: k c rule: less_induct)
  case (less n)
  let ?c1 = "if n mod 2 = 1 then crc_shifts (2 * k) c else c" and ?m = "n div 2"
  let ?c2 = "if ?m mod 2 = 1 then crc_shifts (4 * k) ?c1 else ?c1"
  have c2: "?c2 = crc_shifts (4 * k * (?m mod 2) + 2 * k * (n mod 2)) c"
    by (auto simp: crc_shifts_add)
  have n: "n = 4 * (?m div 2) + 2 * (?m mod 2) + n mod 2" by presburger
  have loop: "combine_loop (matrix_of (crc_shifts k)) (ucast c) n =
     (if ?m = 0 then Some (ucast ?c1)
      else if ?m div 2 \<noteq> 0 then combine_loop (matrix_of (crc_shifts (4 * k))) (ucast ?c2) (?m div 2)
      else Some (ucast ?c2))"
    by (subst combine_loop.simps) (simp add: square_crc_shifts gf2_matrix_times_of Let_def)
  show ?case
  proof (cases "?m = 0")
    case True
    with less.prems have "n = 1" by simp
    then show ?thesis using loop True by simp
  next
    case m: False
    show ?thesis
    proof (cases "?m div 2 = 0")
      case True
      then have n': "n = 2 * (?m mod 2) + n mod 2" using n by simp
      have "4 * k * (?m mod 2) + 2 * k * (n mod 2) = 2 * k * n"
        using arg_cong [OF n', of "\<lambda>x. 2 * k * x"] by (simp add: algebra_simps)
      then have "?c2 = crc_shifts (2 * k * n) c"
        unfolding c2 by (simp only:)
      with loop True m show ?thesis by simp
    next
      case False
      have "combine_loop (matrix_of (crc_shifts (4 * k))) (ucast ?c2) (?m div 2)
        = Some (ucast (crc_shifts (2 * (4 * k) * (?m div 2)) ?c2))"
        using False by (intro less.IH) auto
      moreover have "crc_shifts (2 * (4 * k) * (?m div 2)) ?c2 = crc_shifts (2 * k * n) c"
      proof -
        have "2 * (4 * k) * (?m div 2) + (4 * k * (?m mod 2) + 2 * k * (n mod 2)) = 2 * k * n"
          using arg_cong [OF n, of "\<lambda>x. 2 * k * x"] by (simp add: algebra_simps)
        then show ?thesis unfolding c2 crc_shifts_add [symmetric] by (simp only:)
      qed
      ultimately show ?thesis using loop False m by simp
    qed
  qed
qed

lemma crc32_combine_value:
  "crc32_combine (ucast a) (ucast b) (int n)
    = Some (ucast (if n = 0 then a else crc_shifts (8 * n) a XOR b))"
proof -
  have "gf2_matrix_square (matrix_of (crc_shifts 1)) = Some (matrix_of (crc_shifts 2))"
    "gf2_matrix_square (matrix_of (crc_shifts 2)) = Some (matrix_of (crc_shifts 4))"
    using square_crc_shifts [of 1] square_crc_shifts [of 2] by simp_all
  then show ?thesis
    using combine_loop_shifts [of n 4 a]
    by (auto simp: crc32_combine_def crc32_combine_impl_def one_zero_bit_matrix unsigned_xor_eq)
qed

section \<open>Concatenation\<close>

lemma foldl_crc_step_xor:
  "foldl crc_step (c XOR d) ys = foldl crc_step c ys XOR crc_shifts (8 * length ys) d"
proof (induction ys arbitrary: c d)
  case (Cons y ys)
  have "crc_step (c XOR d) y = crc_step c y XOR crc_shifts 8 d"
    by (simp add: crc_step_def crc_shifts_xor xor.assoc xor.commute xor.left_commute)
  moreover have "crc_shifts (8 * length ys) (crc_shifts 8 d) = crc_shifts (8 * length (y # ys)) d"
    using crc_shifts_add [of "8 * length ys" 8 d] by (simp add: algebra_simps)
  ultimately show ?case by (simp add: Cons)
qed simp

lemma crc_spec_append: "crc_spec c (xs @ ys) = crc_spec (crc_spec c xs) ys"
  by (simp add: crc_spec_def)

lemma crc_spec_Nil [simp]: "crc_spec c [] = c"
  by (simp add: crc_spec_def)

lemma crc_spec_from: "crc_spec c ys = crc_shifts (8 * length ys) c XOR crc_spec 0 ys"
proof -
  have "NOT c = NOT 0 XOR c" by (rule bit_word_eqI) (auto simp: bit_simps)
  then have "crc_spec c ys = NOT (foldl crc_step (NOT 0) ys XOR crc_shifts (8 * length ys) c)"
    unfolding crc_spec_def by (simp only: foldl_crc_step_xor)
  also have "\<dots> = crc_shifts (8 * length ys) c XOR NOT (foldl crc_step (NOT 0) ys)"
    by (rule bit_word_eqI) (auto simp: bit_simps)
  finally show ?thesis by (simp add: crc_spec_def)
qed

definition valid_crc :: "u64 \<Rightarrow> bool" where
  "valid_crc c \<longleftrightarrow> unat c < 2 ^ 32"

lemma valid_crcE:
  assumes "valid_crc c"
  obtains d :: u32 where "c = ucast d"
proof
  show "c = ucast (ucast c :: u32)"
  proof (rule bit_word_eqI)
    fix n assume "n < LENGTH(64)"
    have "take_bit 32 c = c"
      using assms by (simp add: valid_crc_def word_unat_eq_iff unsigned_take_bit_eq take_bit_nat_eq_self)
    then have "bit c n \<longleftrightarrow> n < 32 \<and> bit c n" by (metis bit_take_bit_iff)
    then show "bit c n = bit (ucast (ucast c :: u32) :: u64) n"
      using \<open>n < LENGTH(64)\<close> by (auto simp: bit_simps)
  qed
qed

lemma valid_crc_ucast: "valid_crc (ucast (d :: u32))"
proof -
  have "unat d < 2 ^ LENGTH(32)" by (rule unsigned_less)
  then show ?thesis by (simp add: valid_crc_def unsigned_ucast_eq take_bit_nat_eq_self)
qed

lemma valid_crc_0: "valid_crc 0"
  by (simp add: valid_crc_def)

lemma crc32_start: "crc32 tg addr 0 (Some xs) (length xs) = Some (ucast (crc_spec 0 xs))"
  using crc32_value [of "length xs" xs tg addr 0] by simp

lemma crc32_combine_append:
  assumes "crc32 tg addr 0 (Some xs) (length xs) = Some a" "crc32 tg addr 0 (Some ys) (length ys) = Some b"
  shows "crc32 tg addr 0 (Some (xs @ ys)) (length (xs @ ys)) = crc32_combine a b (int (length ys))"
proof -
  have "a = ucast (crc_spec 0 xs)" "b = ucast (crc_spec 0 ys)"
    using assms crc32_start by simp_all
  moreover have "crc_spec 0 (xs @ ys) = crc_shifts (8 * length ys) (crc_spec 0 xs) XOR crc_spec 0 ys"
    unfolding crc_spec_append by (rule crc_spec_from)
  ultimately show ?thesis
    unfolding crc32_start by (simp add: crc32_combine_value)
qed

interpretation crc: combinable_checksum
  "\<lambda>c xs. crc32 tg addr c (Some xs) (length xs)" 0 valid_crc crc32_combine
  for tg addr
proof unfold_locales
  show "valid_crc 0" by (rule valid_crc_0)
next
  fix c xs assume "valid_crc c"
  then show "\<exists>c'. crc32 tg addr c (Some xs) (length xs) = Some c' \<and> valid_crc c'"
    by (auto elim!: valid_crcE simp: crc32_value valid_crc_ucast)
next
  fix c assume "valid_crc c"
  then show "crc32 tg addr c (Some []) (length []) = Some c"
    by (auto elim!: valid_crcE simp: crc32_value)
next
  fix c xs ys assume "valid_crc c"
  then show "crc32 tg addr c (Some (xs @ ys)) (length (xs @ ys)) =
      crc32 tg addr c (Some xs) (length xs) \<bind> (\<lambda>c'. crc32 tg addr c' (Some ys) (length ys))"
    using crc32_value [of "length (xs @ ys)" "xs @ ys"]
    by (auto elim!: valid_crcE simp: crc32_value crc_spec_append)
next
  fix xs ys a b
  assume "crc32 tg addr 0 (Some xs) (length xs) = Some a" "crc32 tg addr 0 (Some ys) (length ys) = Some b"
  then show "crc32 tg addr 0 (Some (xs @ ys)) (length (xs @ ys)) = crc32_combine a b (int (length ys))"
    by (rule crc32_combine_append)
qed

text \<open>C2: the matrix loop of \<open>crc32_combine\<close> ends within its matrices and computes the
  CRC of a concatenation from the CRCs of the two parts and the length of the second;
  combining three parts does not depend on the order.\<close>

theorem crc32_combine_correct:
  assumes "crc32 tg addr 0 (Some xs) (length xs) = Some a" "crc32 tg addr 0 (Some ys) (length ys) = Some b"
    and "crc32 tg addr 0 (Some zs) (length zs) = Some c" "length ys + length zs < 2 ^ 63"
  shows "crc32 tg addr 0 (Some (xs @ ys)) (length (xs @ ys)) = crc32_combine a b (int (length ys))
    \<and> (crc32_combine a b (int (length ys)) \<bind> (\<lambda>ab. crc32_combine ab c (int (length zs))))
      = (crc32_combine b c (int (length zs)) \<bind> (\<lambda>bc. crc32_combine a bc (int (length ys + length zs))))"
  using crc.comb_append [OF assms(1,2)] crc.comb_assoc [OF assms] assms(4) by simp

section \<open>Error detection\<close>











lemma crc32_one_byte_values:
  "crc32 tg addr 0 (Some [0x61]) (length [0x61 :: u8]) = Some 0xe8b7be43"
  "crc32 tg addr 0 (Some [0x62]) (length [0x62 :: u8]) = Some 0x71beeff9"
  "crc32 tg addr 0 (Some [0x63]) (length [0x63 :: u8]) = Some 0x6b9df6f"
  unfolding crc32_start by (simp_all add: crc_spec_def crc_step_def funpow_8 crc_shift_eval)

theorem crc32_combine_correct_witness:
  "crc32 \<lparr>big_endian = True, sizeof_ptr = 8, sizeof_ptrdiff = 8\<rparr> 1 0 (Some ([0x61] @ [0x62])) (length ([0x61] @ [0x62 :: u8]))
     = crc32_combine 0xe8b7be43 0x71beeff9 (int (length [0x62 :: u8]))
   \<and> (crc32_combine 0xe8b7be43 0x71beeff9 (int (length [0x62 :: u8])) \<bind> (\<lambda>ab. crc32_combine ab 0x6b9df6f (int (length [0x63 :: u8]))))
     = (crc32_combine 0x71beeff9 0x6b9df6f (int (length [0x63 :: u8])) \<bind>
          (\<lambda>bc. crc32_combine 0xe8b7be43 bc (int (length [0x62 :: u8] + length [0x63 :: u8]))))"
  by (rule crc32_combine_correct [where tg = "\<lparr>big_endian = True, sizeof_ptr = 8, sizeof_ptrdiff = 8\<rparr>" and addr = 1,
        OF crc32_one_byte_values]) simp


end
