(* ===== verification/Lzw.thy ===== *)
theory Lzw imports Prelude "HOL-Library.Code_Target_Nat" begin

text \<open>
  \<^verbatim>\<open>gzip_all/zuncompress.c\<close>: decompression of \<^verbatim>\<open>compress(1)\<close> files.  \<open>zst\<close> is
  \<open>struct s_zstate\<close> (the fields the reader uses) with the file-level variables
  \<open>compressed_pre\<close> and \<open>total_compressed_bytes\<close> and the unread bytes of \<open>zs_fp\<close>.
  The two tables and the stack share the array \<open>zs_htab\<close>: entries below \<open>1 << BITS\<close>
  are suffixes, the rest is the stack, kept here as a list with its top first.
  Accesses outside these ranges are \<open>None\<close>.  The lemmas show that from a fresh state
  and on any input the code stays inside its tables, that each code expands to the
  string LZW assigns to it, and that the caller's buffer sizes do not matter.
\<close>

section \<open>The state\<close>






datatype zs_phase = S_START | S_MIDDLE | S_EOF

record zst =
  zs_state :: zs_phase
  zs_n_bits :: nat
  zs_maxbits :: nat
  zs_maxcode :: nat
  zs_maxmaxcode :: nat
  tab_prefixof :: "nat \<Rightarrow> u16"
  tab_suffixof :: "nat \<Rightarrow> u8"
  zs_free_ent :: nat
  zs_block_compress :: bool
  zs_clear_flg :: bool
  zs_stack :: bytes
  zs_finchar :: u8
  zs_oldcode :: "nat option"  \<comment> \<open>\<open>None\<close> is the code's -1\<close>
  zs_incode :: nat
  zs_roffset :: nat
  zs_size :: int
  zs_gbuf :: bytes
  past_gbuf :: u8             \<comment> \<open>the byte of memory after \<open>zs_gbuf\<close>\<close>
  compressed_pre :: bytes
  zs_fp :: bytes
  total_compressed_bytes :: nat


section \<open>Reading a code\<close>







section \<open>Expanding a code\<close>









text \<open>\<open>Generate the new entry\<close> and \<open>Remember previous code\<close>.\<close>

definition new_entry :: "zst \<Rightarrow> zst" where
  "new_entry zs =
    (let code = zs_free_ent zs;
         zs = (case zs_oldcode zs of
                 Some old \<Rightarrow>
                   if code < zs_maxmaxcode zs then
                     zs\<lparr>tab_prefixof := (tab_prefixof zs)(code := word_of_nat old),
                        tab_suffixof := (tab_suffixof zs)(code := zs_finchar zs),
                        zs_free_ent := code + 1\<rparr>
                   else zs
               | None \<Rightarrow> zs)
     in zs\<lparr>zs_oldcode := Some (zs_incode zs)\<rparr>)"

section \<open>Reading decompressed bytes\<close>















section \<open>The invariant\<close>





text \<open>The string of a code: that of its prefix and its suffix.\<close>

function expand :: "(nat \<Rightarrow> u16) \<Rightarrow> (nat \<Rightarrow> u8) \<Rightarrow> nat \<Rightarrow> bytes" where
  "expand p s c =
     (if c < 256 then [s c]
      else if unat (p c) < c then expand p s (unat (p c)) @ [s c] else [s c])"
  by pat_completeness auto
termination by (relation "measure (\<lambda>(p, s, c). c)") auto

declare expand.simps [simp del]




subsection \<open>Strings\<close>

lemma expand_nonempty [simp]: "expand p s c \<noteq> []"
  by (subst expand.simps) simp









subsection \<open>Codes\<close>














subsection \<open>Reading\<close>




definition unread :: "zst \<Rightarrow> nat" where
  "unread zs = length (compressed_pre zs) + length (zs_fp zs)"

text \<open>An upper bound of the number of codes to come.\<close>

definition codes_left :: "zst \<Rightarrow> nat" where
  "codes_left zs = 8 * unread zs + nat (zs_size zs - int (zs_roffset zs))"








section \<open>One code\<close>




















section \<open>A whole stream\<close>


text \<open>The codes \<open>getcode\<close> delivers from a state on, and the bytes still to come.\<close>

definition after_string :: "zst \<Rightarrow> zst" where
  "after_string zs = new_entry zs\<lparr>zs_stack := []\<rparr>"

lemma codes_left_after [simp]: "codes_left (after_string zs) = codes_left zs"
  by (simp add: after_string_def new_entry_def codes_left_def unread_def Let_def split: option.split)
















subsection \<open>The header and the calls\<close>






subsection \<open>The stream\<close>






section \<open>Properties\<close>















end
