(* ===== verification/Rpc.thy ===== *)
theory Rpc imports Prelude begin

text \<open>
  \<^verbatim>\<open>libsep/sandbox_rpc.c\<close>: sending and receiving on the socket between the host and the
  sandbox, with and without descriptors.  The kernel's part is a schedule: each \<open>send\<close>,
  \<open>recv\<close>, \<open>sendmsg\<close> and \<open>recvmsg\<close> takes the next event, which moves some of the bytes or
  fails, and moves all it can when the schedule is empty.  A call that waits for a peer which
  sends nothing and does not close is \<open>None\<close>, as is a write past \<open>cmsgbuf\<close>.  The lemmas
  show that on every schedule without errors other than \<open>EINTR\<close> the bytes arrive as sent.
\<close>

section \<open>The socket\<close>

text \<open>A control message; its data are the descriptors in the space it has.\<close>

record cmsghdr =
  cmsg_len :: nat
  cmsg_level :: nat
  cmsg_type :: nat
  cmsg_data :: "int list"

datatype kevent = KErr errno | Xfer nat

text \<open>One end: what has arrived (in pieces, each with the control messages before it),
  whether the peer closed, what was sent, the events to come, and the descriptors closed.\<close>

type_synonym piece = "cmsghdr list \<times> bytes"

record sock =
  rx :: "piece list"
  rx_eof :: bool
  tx :: "piece list"
  events :: "kevent list"
  closed :: "int list"

definition sendmsg_k :: "cmsghdr list \<Rightarrow> bytes \<Rightarrow> sock \<Rightarrow> (errno + nat) \<times> sock" where
  "sendmsg_k ctl buf s =
    (case events s of
       [] \<Rightarrow> (Inr (length buf), s\<lparr>tx := tx s @ [(ctl, buf)]\<rparr>)
     | KErr e # ev \<Rightarrow> (Inl e, s\<lparr>events := ev\<rparr>)
     | Xfer k # ev \<Rightarrow>
         (let n = min (Suc k) (length buf) in
          (Inr n, s\<lparr>tx := tx s @ [(ctl, take n buf)], events := ev\<rparr>)))"

definition send_k :: "bytes \<Rightarrow> sock \<Rightarrow> (errno + nat) \<times> sock" where
  "send_k buf s = sendmsg_k [] buf s"

text \<open>A read does not go past a piece; an empty piece is skipped.\<close>

fun take_piece :: "nat \<Rightarrow> piece list \<Rightarrow> (piece \<times> piece list) option" where
  "take_piece n [] = None"
| "take_piece n ((ctl, bs) # ps) =
     (if bs = [] then take_piece n ps
      else Some ((ctl, take n bs), (if length bs \<le> n then ps else ([], drop n bs) # ps)))"

definition recvmsg_k :: "nat \<Rightarrow> sock \<Rightarrow> ((errno + piece) \<times> sock) option" where
  "recvmsg_k n s =
    (case events s of
       KErr e # ev \<Rightarrow> Some (Inl e, s\<lparr>events := ev\<rparr>)
     | ev \<Rightarrow>
         (let n = (case ev of Xfer k # _ \<Rightarrow> min (Suc k) n | _ \<Rightarrow> n); s = s\<lparr>events := tl ev\<rparr> in
          case take_piece n (rx s) of
            Some (p, ps) \<Rightarrow> Some (Inr p, s\<lparr>rx := ps\<rparr>)
          | None \<Rightarrow> if rx_eof s then Some (Inr ([], []), s) else None))"

definition recv_k :: "nat \<Rightarrow> sock \<Rightarrow> ((errno + bytes) \<times> sock) option" where
  "recv_k n s = map_option (\<lambda>(r, s). (map_sum id snd r, s)) (recvmsg_k n s)"

section \<open>Bytes\<close>

text \<open>\<open>SO_SNDBUF\<close> is the number of a socket option.\<close>

definition SO_SNDBUF :: nat where "SO_SNDBUF = 0x1001"
definition SEND_MAX :: nat where "SEND_MAX = SO_SNDBUF div 2"

lemma sendmsg_k_cases:
  obtains (err) e where "sendmsg_k ctl buf s = (Inl e, s\<lparr>events := tl (events s)\<rparr>)" "events s \<noteq> []"
  | (ok) n where "sendmsg_k ctl buf s =
      (Inr n, s\<lparr>tx := tx s @ [(ctl, take n buf)], events := tl (events s)\<rparr>)"
      "n \<le> length buf" "buf \<noteq> [] \<Longrightarrow> 0 < n"
  by (cases "events s"; cases "hd (events s)")
     (auto simp: sendmsg_k_def Let_def intro!: that)

lemma SEND_MAX_pos: "0 < SEND_MAX" by (simp add: SEND_MAX_def SO_SNDBUF_def)

function send_everything :: "bytes \<Rightarrow> sock \<Rightarrow> (errno + nat) \<times> sock" where
  "send_everything buf s =
    (if buf = [] then (Inr 0, s)
     else case send_k (take SEND_MAX buf) s of
       (Inl e, s') \<Rightarrow> if e = EINTR then send_everything buf s' else (Inl e, s')
     | (Inr n, s') \<Rightarrow>
         (case send_everything (drop n buf) s' of
            (Inl e, s'') \<Rightarrow> (Inl e, s'')
          | (Inr m, s'') \<Rightarrow> (Inr (n + m), s'')))"
  by pat_completeness auto
termination
proof (relation "measure (\<lambda>(buf, s). length buf + length (events s))", goal_cases)
  case (2 buf s r s' e)
  then show ?case by (cases rule: sendmsg_k_cases [of "[]" "take SEND_MAX buf" s]) (auto simp: send_k_def)
next
  case (3 buf s r s' n)
  then show ?case using SEND_MAX_pos
    by (cases rule: sendmsg_k_cases [of "[]" "take SEND_MAX buf" s]) (auto simp: send_k_def)
qed simp

declare send_everything.simps [simp del]

lemma take_piece_Some:
  "take_piece n ps = Some ((ctl, bs), qs) \<Longrightarrow>
     length bs \<le> n \<and> (0 < n \<longrightarrow> bs \<noteq> []) \<and> concat (map snd ps) = bs @ concat (map snd qs)"
  by (induction n ps rule: take_piece.induct) (auto split: if_splits)

lemma recvmsg_k_Some:
  assumes "recvmsg_k n s = Some (r, s')"
  shows "events s' = tl (events s)" "tx s' = tx s" "rx_eof s' = rx_eof s" "closed s' = closed s"
    "r = Inl e \<Longrightarrow> events s \<noteq> [] \<and> rx s' = rx s"
    "r = Inr (ctl, bs) \<Longrightarrow> length bs \<le> n \<and> concat (map snd (rx s)) = bs @ concat (map snd (rx s'))"
    "r = Inr (ctl, bs) \<Longrightarrow> 0 < n \<Longrightarrow> bs = [] \<Longrightarrow> rx_eof s"
  using assms
  by (auto simp: recvmsg_k_def Let_def split: list.splits kevent.splits option.splits if_splits
      dest!: take_piece_Some)

lemma recv_k_Inl: "recv_k n s = Some (Inl e, s') \<Longrightarrow> recvmsg_k n s = Some (Inl e, s')"
  unfolding recv_k_def by (cases "recvmsg_k n s"; cases "fst (the (recvmsg_k n s))") auto

lemma recv_k_size: "recv_k n s = Some (Inr bs, s') \<Longrightarrow> length bs \<le> n"
  unfolding recv_k_def
  by (cases "recvmsg_k n s"; cases "fst (the (recvmsg_k n s))") (auto dest: recvmsg_k_Some(6))

lemma recv_k_Inr: "recv_k n s = Some (Inr bs, s') \<Longrightarrow> \<exists>ctl. recvmsg_k n s = Some (Inr (ctl, bs), s')"
  unfolding recv_k_def by (cases "recvmsg_k n s"; cases "fst (the (recvmsg_k n s))") auto

text \<open>The value of an end of file in the middle is 0: the bytes before it are lost to the
  caller, who can tell it from a complete read only by the count.\<close>

function recv_everything :: "nat \<Rightarrow> sock \<Rightarrow> ((errno + bytes) \<times> sock) option" where
  "recv_everything len s =
    (if len = 0 then Some (Inr [], s)
     else do {
       (r, s') \<leftarrow> recv_k (min len SEND_MAX) s;
       case r of
         Inl e \<Rightarrow> if e = EINTR then recv_everything len s' else Some (Inl e, s')
       | Inr bs \<Rightarrow>
           if bs = [] then Some (Inr [], s')
           else do {
             (r', s'') \<leftarrow> recv_everything (len - length bs) s';
             Some ((case r' of
                      Inl e \<Rightarrow> Inl e
                    | Inr bs' \<Rightarrow> if length bs' = len - length bs then Inr (bs @ bs') else Inr []), s'') } })"
  by pat_completeness auto
termination
proof (relation "measure (\<lambda>(len, s). len + length (events s))", goal_cases)
  case (2 len s x r s' e)
  then have "recvmsg_k (min len SEND_MAX) s = Some (Inl e, s')" by (intro recv_k_Inl) auto
  from recvmsg_k_Some(1,5) [OF this] show ?case by (auto simp: neq_Nil_conv)
next
  case (3 len s x r s' bs)
  then have "recv_k (min len SEND_MAX) s = Some (Inr bs, s')" by auto
  from recv_k_Inr [OF this] obtain ctl where
    "recvmsg_k (min len SEND_MAX) s = Some (Inr (ctl, bs), s')" by blast
  from recvmsg_k_Some(1,6) [OF this] have "events s' = tl (events s)" by blast
  moreover have "0 < length bs" "0 < len" using 3 by auto
  ultimately have "len - length bs + length (events s') < len + length (events s)"
    by (simp del: length_greater_0_conv)
  then show ?case by simp
qed simp

declare recv_everything.simps [simp del]


section \<open>The library's calls\<close>

definition bad_fd :: "int \<Rightarrow> bool" where "bad_fd fd \<longleftrightarrow> fd = -1 \<or> fd = 0"

text \<open>\<open>do \<dots> while (retlen < 0 && errno == EINTR)\<close>: each turn but the last takes an event,
  so the length of the schedule bounds the turns.\<close>

function send_retry :: "bytes \<Rightarrow> sock \<Rightarrow> (errno + nat) \<times> sock" where
  "send_retry msg s =
    (case send_everything msg s of
       (Inl e, s') \<Rightarrow>
         if e = EINTR \<and> length (events s') < length (events s) then send_retry msg s' else (Inl e, s')
     | r \<Rightarrow> r)"
  by pat_completeness auto
termination by (relation "measure (\<lambda>(msg, s). length (events s))") auto

declare send_retry.simps [simp del]

definition sandbox_rpc_send :: "int \<Rightarrow> bytes \<Rightarrow> sock \<Rightarrow> (errno + nat) \<times> sock" where
  "sandbox_rpc_send fd msg s = (if bad_fd fd then (Inl ECHILD, s) else send_retry msg s)"

function recv_retry :: "nat \<Rightarrow> sock \<Rightarrow> ((errno + bytes) \<times> sock) option" where
  "recv_retry len s =
    do { (r, s') \<leftarrow> recv_everything len s;
         if r = Inl EINTR \<and> length (events s') < length (events s) then recv_retry len s'
         else Some (r, s') }"
  by pat_completeness auto
termination by (relation "measure (\<lambda>(len, s). length (events s))") auto

declare recv_retry.simps [simp del]

definition sandbox_rpc_recv :: "int \<Rightarrow> nat \<Rightarrow> sock \<Rightarrow> ((errno + bytes) \<times> sock) option" where
  "sandbox_rpc_recv fd len s = (if bad_fd fd then Some (Inl ESRCH, s) else recv_retry len s)"

section \<open>Descriptors\<close>

definition dispose_rights :: "int list \<Rightarrow> sock \<Rightarrow> sock" where
  "dispose_rights fds s = s\<lparr>closed := closed s @ fds\<rparr>"

text \<open>The macros, for a 12-byte header aligned to 8.\<close>

definition ALIGN :: "nat \<Rightarrow> nat" where "ALIGN n = (n + 7) div 8 * 8"
definition CMSG_LEN :: "nat \<Rightarrow> nat" where "CMSG_LEN n = ALIGN 12 + n"
definition CMSG_SPACE :: "nat \<Rightarrow> nat" where "CMSG_SPACE n = ALIGN 12 + ALIGN n"

definition SOL_SOCKET :: nat where "SOL_SOCKET = 0xffff"
definition SCM_RIGHTS :: nat where "SCM_RIGHTS = 1"
definition MAXRIGHTS :: nat where "MAXRIGHTS = 16"

definition is_rights :: "cmsghdr \<Rightarrow> bool" where
  "is_rights c \<longleftrightarrow> cmsg_level c = SOL_SOCKET \<and> cmsg_type c = SCM_RIGHTS"

definition rights_count :: "cmsghdr \<Rightarrow> nat" where
  "rights_count c = (cmsg_len c - CMSG_LEN 0) div 4"

definition rights_of :: "cmsghdr \<Rightarrow> int list" where
  "rights_of c = take (rights_count c) (cmsg_data c)"

text \<open>The descriptors put at \<open>fdp\<close>, whose number becomes \<open>*fdcountp\<close>; with no message of
  rights that is 0.\<close>

definition receive_rights :: "cmsghdr list \<Rightarrow> nat \<Rightarrow> sock \<Rightarrow> (errno + int list) \<times> sock" where
  "receive_rights msg fdcountp s =
    (let rs = filter is_rights msg; fdcount = sum_list (map rights_count rs) in
     if length rs > 1 \<or> fdcount > fdcountp then
       (Inl EBADMSG, fold (\<lambda>c. dispose_rights (rights_of c)) rs s)
     else (Inr (concat (map (\<lambda>c. take fdcount (cmsg_data c)) rs)), s))"

function sendmsg_retry :: "cmsghdr list \<Rightarrow> bytes \<Rightarrow> sock \<Rightarrow> (errno + nat) \<times> sock" where
  "sendmsg_retry ctl msg s =
    (case sendmsg_k ctl msg s of
       (Inl e, s') \<Rightarrow> if e = EINTR then sendmsg_retry ctl msg s' else (Inl e, s')
     | r \<Rightarrow> r)"
  by pat_completeness auto
termination
proof (relation "measure (\<lambda>(ctl, msg, s). length (events s))", goal_cases)
  case (2 ctl msg s r s' e)
  then show ?case by (cases rule: sendmsg_k_cases [of ctl msg s]) auto
qed simp

declare sendmsg_retry.simps [simp del]

text \<open>\<open>cmsgbuf\<close> has room for \<open>MAXRIGHTS\<close> descriptors and starts out zero; the length put in the
  header is that of the space.\<close>

definition rights_msg :: "int list \<Rightarrow> cmsghdr option" where
  "rights_msg fds =
    (if length fds > MAXRIGHTS then None
     else Some \<lparr>cmsg_len = CMSG_SPACE (length fds * 4), cmsg_level = SOL_SOCKET,
            cmsg_type = SCM_RIGHTS,
            cmsg_data = fds @ replicate (MAXRIGHTS - length fds) 0\<rparr>)"

definition sandbox_rpc_send_rights ::
    "int \<Rightarrow> bytes \<Rightarrow> int list \<Rightarrow> sock \<Rightarrow> ((errno + nat) \<times> sock) option" where
  "sandbox_rpc_send_rights fd msg fds s =
    (if fds = [] then Some (sandbox_rpc_send fd msg s)
     else if bad_fd fd then Some (Inl ECHILD, s)
     else do { c \<leftarrow> rights_msg fds; Some (sendmsg_retry [c] msg s) })"

function recvmsg_retry :: "nat \<Rightarrow> sock \<Rightarrow> ((errno + piece) \<times> sock) option" where
  "recvmsg_retry len s =
    do { (r, s') \<leftarrow> recvmsg_k len s;
         case r of
           Inl e \<Rightarrow> if e = EINTR then recvmsg_retry len s' else Some (Inl e, s')
         | Inr p \<Rightarrow> Some (Inr p, s') }"
  by pat_completeness auto
termination
proof (relation "measure (\<lambda>(len, s). length (events s))", goal_cases)
  case (2 len s x r s' e)
  then have "recvmsg_k len s = Some (Inl e, s')" by simp
  from recvmsg_k_Some(1,5) [OF this] show ?case by (auto simp: neq_Nil_conv)
qed simp

declare recvmsg_retry.simps [simp del]

definition sandbox_rpc_recv_rights ::
    "int \<Rightarrow> nat \<Rightarrow> nat \<Rightarrow> sock \<Rightarrow> ((errno + bytes \<times> int list) \<times> sock) option" where
  "sandbox_rpc_recv_rights fd len fdcountp s =
    (if fdcountp = 0 then
       map_option (\<lambda>(r, s). (map_sum id (\<lambda>bs. (bs, [])) r, s)) (sandbox_rpc_recv fd len s)
     else if bad_fd fd then Some (Inl ECHILD, s)
     else if fdcountp > MAXRIGHTS then Some (Inl EMSGSIZE, s)
     else do {
       (r, s) \<leftarrow> recvmsg_retry len s;
       case r of
         Inl e \<Rightarrow> Some (Inl e, s)
       | Inr (ctl, bs) \<Rightarrow>
           (case receive_rights ctl fdcountp s of
              (Inl e, s) \<Rightarrow> Some (Inl e, s)
            | (Inr fds, s) \<Rightarrow> Some (Inr (bs, fds), s)) })"


section \<open>The contract\<close>

text \<open>What the layers above use: a calm channel takes all bytes given to it and returns all
  bytes asked for that have arrived; on any channel a read returns all it was asked for or
  nothing.\<close>

locale byte_channel =
  fixes put :: "bytes \<Rightarrow> 's \<Rightarrow> (errno + nat) \<times> 's"
    and get :: "nat \<Rightarrow> 's \<Rightarrow> ((errno + bytes) \<times> 's) option"
    and sent arrived :: "'s \<Rightarrow> bytes" and calm :: "'s \<Rightarrow> bool"
  assumes put_ok: "calm s \<Longrightarrow> \<exists>s'. put bs s = (Inr (length bs), s') \<and>
      sent s' = sent s @ bs \<and> arrived s' = arrived s \<and> calm s'"
    and get_ok: "calm s \<Longrightarrow> n \<le> length (arrived s) \<Longrightarrow>
      \<exists>s'. get n s = Some (Inr (take n (arrived s)), s') \<and>
        arrived s' = drop n (arrived s) \<and> sent s' = sent s \<and> calm s'"
    and get_whole: "get n s = Some (Inr bs, s') \<Longrightarrow> bs = [] \<or> length bs = n"

definition gentle :: "kevent list \<Rightarrow> bool" where
  "gentle ev \<longleftrightarrow> (\<forall>e. KErr e \<in> set ev \<longrightarrow> e = EINTR)"

definition sent_bytes :: "sock \<Rightarrow> bytes" where "sent_bytes s = concat (map snd (tx s))"
definition arrived_bytes :: "sock \<Rightarrow> bytes" where "arrived_bytes s = concat (map snd (rx s))"

lemma gentle_tl: "gentle ev \<Longrightarrow> gentle (tl ev)"
  by (cases ev) (auto simp: gentle_def)

lemma send_everything_ok:
  assumes "gentle (events s)"
  shows "\<exists>s'. send_everything buf s = (Inr (length buf), s') \<and> gentle (events s') \<and>
    sent_bytes s' = sent_bytes s @ buf \<and> rx s' = rx s \<and> rx_eof s' = rx_eof s \<and> closed s' = closed s"
  using assms
proof (induction buf s rule: send_everything.induct)
  case (1 buf s)
  show ?case
  proof (cases "buf = []")
    case True
    then show ?thesis using 1 by (subst send_everything.simps) simp
  next
    case False
    show ?thesis
    proof (cases rule: sendmsg_k_cases [of "[]" "take SEND_MAX buf" s])
      case (err e)
      then have "e = EINTR" using 1(3)
        by (cases "events s") (auto simp: sendmsg_k_def gentle_def Let_def split: kevent.splits)
      with err False 1(1) [OF False] 1(3) gentle_tl [OF 1(3)] show ?thesis
        by (subst send_everything.simps) (simp add: send_k_def sent_bytes_def)
    next
      case (ok n)
      let ?s = "s\<lparr>tx := tx s @ [([], take n (take SEND_MAX buf))], events := tl (events s)\<rparr>"
      from 1(2) [OF False _ refl] ok gentle_tl [OF 1(3)]
      obtain s' where "send_everything (drop n buf) ?s = (Inr (length (drop n buf)), s')"
          "gentle (events s')" "sent_bytes s' = sent_bytes ?s @ drop n buf" "rx s' = rx s"
          "rx_eof s' = rx_eof s" "closed s' = closed s"
        by (fastforce simp: send_k_def)
      moreover have "n \<le> SEND_MAX" using ok(2) by simp
      then have "take n (take SEND_MAX buf) @ drop n buf = buf" by (simp add: min_absorb1)
      ultimately show ?thesis using ok False
        by (subst send_everything.simps) (auto simp: send_k_def sent_bytes_def)
    qed
  qed
qed

lemma send_everything_no_EINTR: "send_everything buf s = (r, s') \<Longrightarrow> r \<noteq> Inl EINTR"
proof (induction buf s arbitrary: r s' rule: send_everything.induct)
  case (1 buf s)
  from 1(3) show ?case
    by (subst (asm) send_everything.simps)
       (auto split: if_splits prod.splits sum.splits dest: 1(1,2))
qed

lemma send_retry_eq: "send_retry msg s = send_everything msg s"
  using send_everything_no_EINTR [of msg s]
  by (subst send_retry.simps) (auto split: prod.splits sum.splits)


lemma recv_everything_whole:
  "recv_everything len s = Some (Inr bs, s') \<Longrightarrow> bs = [] \<or> length bs = len"
proof (induction len s arbitrary: bs s' rule: recv_everything.induct)
  case (1 len s)
  note eq = 1(3) [unfolded recv_everything.simps [of len s]]
  show ?case
  proof (cases "len = 0")
    case True
    with eq show ?thesis by simp
  next
    case False
    with eq obtain r s1 where r: "recv_k (min len SEND_MAX) s = Some (r, s1)"
      by (cases "recv_k (min len SEND_MAX) s") auto
    show ?thesis
    proof (cases r)
      case (Inl e)
      with eq False r have "e = EINTR" "recv_everything len s1 = Some (Inr bs, s')"
        by (auto split: if_splits)
      with 1(1) [OF False r refl Inl] show ?thesis by blast
    next
      case (Inr b)
      with eq False r recv_k_size [of "min len SEND_MAX" s b s1] show ?thesis
        by (auto split: if_splits Option.bind_splits sum.splits)
    qed
  qed
qed

lemma take_piece_None: "take_piece n ps = None \<longleftrightarrow> concat (map snd ps) = []"
  by (induction n ps rule: take_piece.induct) auto

lemma recv_k_gentle:
  assumes "gentle (events s)" "0 < n" "arrived_bytes s \<noteq> []"
  obtains (intr) "recv_k n s = Some (Inl EINTR, s\<lparr>events := tl (events s)\<rparr>)" "events s \<noteq> []"
  | (some) bs s' where "recv_k n s = Some (Inr bs, s')" "bs \<noteq> []" "length bs \<le> n"
      "arrived_bytes s = bs @ arrived_bytes s'" "tx s' = tx s" "gentle (events s')"
      "rx_eof s' = rx_eof s" "closed s' = closed s" "events s' = tl (events s)"
proof (cases "\<exists>e ev. events s = KErr e # ev")
  case True
  with assms(1) obtain ev where "events s = KErr EINTR # ev" by (auto simp: gentle_def)
  then show thesis by (intro intr) (simp_all add: recv_k_def recvmsg_k_def)
next
  case False
  let ?n = "case events s of Xfer k # _ \<Rightarrow> min (Suc k) n | _ \<Rightarrow> n"
  obtain ctl bs ps where p: "take_piece ?n (rx s) = Some ((ctl, bs), ps)"
    using take_piece_None [of ?n "rx s"] assms(3)
    by (cases "take_piece ?n (rx s)") (auto simp: arrived_bytes_def)
  have n: "0 < ?n" "?n \<le> n" using assms(2) by (auto split: list.split kevent.split)
  from False have "recvmsg_k n s = Some (Inr (ctl, bs), s\<lparr>events := tl (events s), rx := ps\<rparr>)"
    using p by (auto simp: recvmsg_k_def Let_def split: list.splits kevent.splits)
  then show thesis using take_piece_Some [OF p] n gentle_tl [OF assms(1)]
    by (intro some [of bs "s\<lparr>events := tl (events s), rx := ps\<rparr>"])
       (simp_all add: recv_k_def arrived_bytes_def del: length_greater_0_conv)
qed

lemma recv_everything_ok:
  assumes "gentle (events s)" "len \<le> length (arrived_bytes s)"
  shows "\<exists>s'. recv_everything len s = Some (Inr (take len (arrived_bytes s)), s') \<and>
    gentle (events s') \<and> arrived_bytes s' = drop len (arrived_bytes s) \<and> tx s' = tx s \<and>
    rx_eof s' = rx_eof s \<and> closed s' = closed s"
  using assms
proof (induction len s rule: recv_everything.induct)
  case (1 len s)
  show ?case
  proof (cases "len = 0")
    case True
    then show ?thesis using 1(3) by (subst recv_everything.simps) simp
  next
    case False
    then have pre: "0 < min len SEND_MAX" "arrived_bytes s \<noteq> []"
      using 1(4) SEND_MAX_pos by auto
    from 1(3) pre show ?thesis
    proof (cases rule: recv_k_gentle)
      case intr
      with 1(1) [OF False intr(1) refl refl] 1(3,4) gentle_tl [OF 1(3)] False show ?thesis
        by (subst recv_everything.simps) (simp add: arrived_bytes_def)
    next
      case (some bs s1)
      then have len: "length bs \<le> len" by simp
      have "len - length bs \<le> length (arrived_bytes s1)" using some 1(4) by simp
      with 1(2) [OF False some(1) refl refl some(2)] some
      obtain s' where s': "recv_everything (len - length bs) s1 =
            Some (Inr (take (len - length bs) (arrived_bytes s1)), s')"
          "gentle (events s')" "arrived_bytes s' = drop (len - length bs) (arrived_bytes s1)"
          "tx s' = tx s" "rx_eof s' = rx_eof s" "closed s' = closed s"
        by auto
      moreover have "take len (arrived_bytes s) = bs @ take (len - length bs) (arrived_bytes s1)"
          "drop len (arrived_bytes s) = drop (len - length bs) (arrived_bytes s1)"
        using some len by simp_all
      moreover have "length (take (len - length bs) (arrived_bytes s1)) = len - length bs"
        using some 1(4) len by simp
      ultimately show ?thesis using False some
        by (subst recv_everything.simps) simp
    qed
  qed
qed


lemma recv_everything_no_EINTR: "recv_everything len s = Some (r, s') \<Longrightarrow> r \<noteq> Inl EINTR"
proof (induction len s arbitrary: r s' rule: recv_everything.induct)
  case (1 len s)
  note eq = 1(3) [unfolded recv_everything.simps [of len s]]
  show ?case
  proof (cases "len = 0")
    case True
    with eq show ?thesis by auto
  next
    case False
    with eq obtain r1 s1 where r: "recv_k (min len SEND_MAX) s = Some (r1, s1)"
      by (cases "recv_k (min len SEND_MAX) s") auto
    show ?thesis
    proof (cases r1)
      case (Inl e)
      with eq False r 1(1) [OF False r refl Inl, of r s'] show ?thesis by (auto split: if_splits)
    next
      case (Inr b)
      show ?thesis
      proof (cases "b = []")
        case True
        with eq False r Inr show ?thesis by auto
      next
        case ne: False
        with eq False r Inr 1(2) [OF False r refl Inr ne] show ?thesis
          by (auto split: Option.bind_splits sum.splits if_splits)
      qed
    qed
  qed
qed

lemma recv_retry_eq: "recv_retry len s = recv_everything len s"
  using recv_everything_no_EINTR [of len s]
  by (subst recv_retry.simps) (cases "recv_everything len s"; auto)

lemmas rpc_call_eqs = sandbox_rpc_send_def sandbox_rpc_recv_def send_retry_eq recv_retry_eq

interpretation channel: byte_channel "sandbox_rpc_send fd" "sandbox_rpc_recv fd" sent_bytes
  arrived_bytes "\<lambda>s. \<not> bad_fd fd \<and> gentle (events s)" for fd
proof
  fix s :: sock and bs :: bytes and n :: nat and s'
  show "\<exists>s'. sandbox_rpc_send fd bs s = (Inr (length bs), s') \<and> sent_bytes s' = sent_bytes s @ bs \<and>
      arrived_bytes s' = arrived_bytes s \<and> \<not> bad_fd fd \<and> gentle (events s')"
    if "\<not> bad_fd fd \<and> gentle (events s)"
    using send_everything_ok [of s bs] that by (auto simp: rpc_call_eqs arrived_bytes_def)
  show "\<exists>s'. sandbox_rpc_recv fd n s = Some (Inr (take n (arrived_bytes s)), s') \<and>
      arrived_bytes s' = drop n (arrived_bytes s) \<and> sent_bytes s' = sent_bytes s \<and>
      \<not> bad_fd fd \<and> gentle (events s')"
    if "\<not> bad_fd fd \<and> gentle (events s)" "n \<le> length (arrived_bytes s)"
    using recv_everything_ok [of s n] that by (auto simp: rpc_call_eqs sent_bytes_def)
  show "bs = [] \<or> length bs = n" if "sandbox_rpc_recv fd n s = Some (Inr bs, s')"
    using that recv_everything_whole by (auto simp: rpc_call_eqs split: if_splits)
qed

section \<open>Properties\<close>

lemma fold_dispose: "closed (fold (\<lambda>c. dispose_rights (rights_of c)) rs s) =
    closed s @ concat (map rights_of rs)"
  by (induction rs arbitrary: s) (simp_all add: dispose_rights_def)

text \<open>C12: No descriptor that arrives is lost: \<open>_sandbox_rpc_receive_rights\<close> either returns all
  descriptors of the only rights message, at most as many as the caller has room for, and
  closes none, or it fails with \<open>EBADMSG\<close> and closes every one of them.\<close>

theorem receive_rights_all_or_none:
  "case receive_rights msg cap s of
     (Inr fds, s') \<Rightarrow> s' = s \<and> length fds \<le> cap \<and>
        fds = concat (map rights_of (filter is_rights msg)) \<and> length (filter is_rights msg) \<le> 1
   | (Inl e, s') \<Rightarrow> e = EBADMSG \<and>
        closed s' = closed s @ concat (map rights_of (filter is_rights msg))"
proof (cases "filter is_rights msg")
  case Nil
  then show ?thesis by (simp add: receive_rights_def)
next
  case (Cons c cs)
  show ?thesis
  proof (cases cs)
    case Nil
    with Cons show ?thesis by (simp add: receive_rights_def Let_def rights_of_def dispose_rights_def min_le_iff_disj)
  next
    case (Cons c' cs')
    with \<open>filter is_rights msg = c # cs\<close> show ?thesis
      by (simp add: receive_rights_def Let_def fold_dispose dispose_rights_def)
  qed
qed

text \<open>C13: The control message \<open>_sandbox_rpc_send_rights\<close> builds announces an even number of
  descriptors, since its length is that of the aligned space: for an odd number it carries
  descriptor 0 as well, and a receiver with room for exactly those sent gets \<open>EBADMSG\<close>.\<close>

theorem rights_msg_odd:
  assumes "rights_msg fds = Some c" "fds \<noteq> []"
  shows "rights_of c = (if odd (length fds) then fds @ [0] else fds) \<and>
    receive_rights [c] (length fds) s =
      (if odd (length fds) then (Inl EBADMSG, s\<lparr>closed := closed s @ fds @ [0]\<rparr>) else (Inr fds, s))"
proof -
  from assms have len: "length fds \<le> 16"
    and c: "c = \<lparr>cmsg_len = CMSG_SPACE (length fds * 4), cmsg_level = SOL_SOCKET,
      cmsg_type = SCM_RIGHTS, cmsg_data = fds @ replicate (16 - length fds) 0\<rparr>"
    by (auto simp: rights_msg_def MAXRIGHTS_def split: if_splits)
  have count: "rights_count c = (if odd (length fds) then Suc (length fds) else length fds)"
    by (auto simp: c rights_count_def CMSG_SPACE_def CMSG_LEN_def ALIGN_def elim!: evenE oddE)
  have "length fds < 16" if "odd (length fds)"
    using len that by (cases "length fds = 16") auto
  then have "rights_of c = (if odd (length fds) then fds @ [0] else fds)"
    unfolding rights_of_def count by (auto simp: c Suc_diff_le take_Cons' neq_Nil_conv)
  moreover have "is_rights c" by (simp add: c is_rights_def)
  ultimately show ?thesis using count
    by (auto simp: receive_rights_def dispose_rights_def c)
qed

theorem rights_msg_odd_witness:
  "\<exists>c. rights_msg [5] = Some c \<and>
     (\<forall>s. receive_rights [c] 1 s = (Inl EBADMSG, s\<lparr>closed := closed s @ [5, 0]\<rparr>))"
  using rights_msg_odd [of "[5]"] by (simp add: rights_msg_def MAXRIGHTS_def)

end
