(* ===== verification/Sandbox.thy ===== *)
theory Sandbox imports Rpc "HOL-Library.Code_Target_Nat" begin

text \<open>
  \<^verbatim>\<open>libsep/sandbox.c\<close>: creating the sandbox and the remote procedure calls between it and
  the host.  A message is a 64-byte header (the packed structs, big endian as in the memory
  of the target) and the data.  The lemmas show that whatever pieces the kernel moves, a
  request reaches the sandbox and its reply the host unchanged; that \<open>host_rpc\<close> accepts
  only replies to its call and never stores beyond the caller's buffers, whatever a
  compromised sandbox sends.
\<close>

section \<open>Creating the sandbox\<close>

record sandbox_cb =
  fd_host_end :: int
  fd_sandbox_end :: int
  sandbox_pid :: int
  inbuf :: bool              \<comment> \<open>whether the shared buffers are mapped\<close>
  outbuf :: bool
  buflen :: nat

definition BUFLEN :: nat where "BUFLEN = 65536"

definition scb_calloc :: sandbox_cb where
  "scb_calloc = \<lparr>fd_host_end = 0, fd_sandbox_end = 0, sandbox_pid = 0, inbuf = False,
     outbuf = False, buflen = 0\<rparr>"

text \<open>What the kernel answers: the socket pair, the two mappings (\<open>MAP_FAILED\<close> is not
  \<open>NULL\<close>, so a failure is \<open>Some False\<close> and passes the checks), the pid of \<open>fork\<close> and
  the value of \<open>cap_enter\<close>.\<close>

record kernel =
  k_socketpair :: "(int \<times> int) option"
  k_mmap_in :: "bool option"   \<comment> \<open>\<open>None\<close> is \<open>NULL\<close>\<close>
  k_mmap_out :: "bool option"
  k_fork :: int
  k_cap_enter :: bool          \<comment> \<open>true on failure\<close>

datatype process =
    Exited nat
  | HostSide sandbox_cb "int list"          \<comment> \<open>the control block and the ends closed\<close>
  | SandboxSide sandbox_cb "int list" int   \<comment> \<open>and the exit status\<close>

definition sandbox_create ::
    "bool \<Rightarrow> sandbox_cb \<Rightarrow> (sandbox_cb \<Rightarrow> int) \<Rightarrow> kernel \<Rightarrow> process" where
  "sandbox_create GZ_SHMEM scb mainfn k =
    (case k_socketpair k of
       None \<Rightarrow> Exited 1
     | Some (h, sb) \<Rightarrow>
         (let scb = scb\<lparr>fd_host_end := h, fd_sandbox_end := sb\<rparr> in
          if GZ_SHMEM \<and> k_mmap_in k = None then Exited 1
          else
            let scb = (if GZ_SHMEM
                       then scb\<lparr>inbuf := the (k_mmap_in k), outbuf := (k_mmap_out k = Some True),
                                buflen := BUFLEN\<rparr>
                       else scb) in
            if k_fork k < 0 then Exited 1
            else if k_fork k = 0 then
              if k_cap_enter k then Exited 1
              else SandboxSide scb [fd_host_end scb] (mainfn scb)
            else HostSide (scb\<lparr>sandbox_pid := k_fork k\<rparr>) [fd_sandbox_end scb]))"

definition lch_startfn :: "bool \<Rightarrow> bool \<Rightarrow> (sandbox_cb \<Rightarrow> int) \<Rightarrow> kernel \<Rightarrow> process option" where
  "lch_startfn GZ_SHMEM callocs fn k =
    (if \<not> callocs then None else Some (sandbox_create GZ_SHMEM scb_calloc fn k))"

text \<open>\<open>cap_new\<close>: a copy of a descriptor with less rights; the result and what was closed.\<close>

definition cap_new :: "int option \<Rightarrow> bool \<Rightarrow> int option \<times> int list" where
  "cap_new dup limits =
    (case dup of None \<Rightarrow> (None, [])
     | Some fdc \<Rightarrow> if \<not> limits then (None, [fdc]) else (Some fdc, []))"

text \<open>The plain transfers of either end.\<close>

definition host_send :: "sandbox_cb \<Rightarrow> bytes \<Rightarrow> sock \<Rightarrow> (errno + nat) \<times> sock" where
  "host_send scb = sandbox_rpc_send (fd_host_end scb)"

definition host_send_rights ::
    "sandbox_cb \<Rightarrow> bytes \<Rightarrow> int list \<Rightarrow> sock \<Rightarrow> ((errno + nat) \<times> sock) option" where
  "host_send_rights scb = sandbox_rpc_send_rights (fd_host_end scb)"

definition host_recv :: "sandbox_cb \<Rightarrow> nat \<Rightarrow> sock \<Rightarrow> ((errno + bytes) \<times> sock) option" where
  "host_recv scb = sandbox_rpc_recv (fd_host_end scb)"

definition host_recv_rights ::
    "sandbox_cb \<Rightarrow> nat \<Rightarrow> nat \<Rightarrow> sock \<Rightarrow> ((errno + bytes \<times> int list) \<times> sock) option" where
  "host_recv_rights scb = sandbox_rpc_recv_rights (fd_host_end scb)"

definition sandbox_send :: "sandbox_cb \<Rightarrow> bytes \<Rightarrow> sock \<Rightarrow> (errno + nat) \<times> sock" where
  "sandbox_send scb = sandbox_rpc_send (fd_sandbox_end scb)"

definition sandbox_send_rights ::
    "sandbox_cb \<Rightarrow> bytes \<Rightarrow> int list \<Rightarrow> sock \<Rightarrow> ((errno + nat) \<times> sock) option" where
  "sandbox_send_rights scb = sandbox_rpc_send_rights (fd_sandbox_end scb)"

definition sandbox_recv :: "sandbox_cb \<Rightarrow> nat \<Rightarrow> sock \<Rightarrow> ((errno + bytes) \<times> sock) option" where
  "sandbox_recv scb = sandbox_rpc_recv (fd_sandbox_end scb)"

definition sandbox_recv_rights ::
    "sandbox_cb \<Rightarrow> nat \<Rightarrow> nat \<Rightarrow> sock \<Rightarrow> ((errno + bytes \<times> int list) \<times> sock) option" where
  "sandbox_recv_rights scb = sandbox_rpc_recv_rights (fd_sandbox_end scb)"

section \<open>Headers\<close>

definition be_bytes :: "nat \<Rightarrow> 'a::len word \<Rightarrow> bytes" where
  "be_bytes n w = map (\<lambda>i. ucast (drop_bit (8 * i) w)) (rev [0..<n])"

definition be_word :: "bytes \<Rightarrow> 'a::len word" where
  "be_word bs = foldl (\<lambda>w b. push_bit 8 w OR ucast b) 0 bs"

definition REQUEST_MAGIC :: u64 where "REQUEST_MAGIC = 0x29ee2d7eb9143d98"
definition REPLY_MAGIC :: u64 where "REPLY_MAGIC = 0x37cc2e29f5cce29b"

record request_hdr =
  reqhdr_magic :: u64
  reqhdr_seqno :: u32
  reqhdr_opno :: u32
  reqhdr_datalen :: u64
  reqhdr_maxrepdatalen :: u64

record reply_hdr =
  rephdr_magic :: u64
  rephdr_seqno :: u32
  rephdr_opno :: u32
  rephdr_datalen :: u64

definition HDR_SIZE :: nat where "HDR_SIZE = 64"

definition put_request_hdr :: "request_hdr \<Rightarrow> bytes" where
  "put_request_hdr h = be_bytes 8 (reqhdr_magic h) @ be_bytes 4 (reqhdr_seqno h) @
     be_bytes 4 (reqhdr_opno h) @ be_bytes 8 (reqhdr_datalen h) @
     be_bytes 8 (reqhdr_maxrepdatalen h) @ replicate 32 0"

definition put_reply_hdr :: "reply_hdr \<Rightarrow> bytes" where
  "put_reply_hdr h = be_bytes 8 (rephdr_magic h) @ be_bytes 4 (rephdr_seqno h) @
     be_bytes 4 (rephdr_opno h) @ be_bytes 8 (rephdr_datalen h) @ replicate 40 0"

definition get_request_hdr :: "bytes \<Rightarrow> request_hdr" where
  "get_request_hdr bs = \<lparr>reqhdr_magic = be_word (take 8 bs), reqhdr_seqno = be_word (take 4 (drop 8 bs)),
     reqhdr_opno = be_word (take 4 (drop 12 bs)), reqhdr_datalen = be_word (take 8 (drop 16 bs)),
     reqhdr_maxrepdatalen = be_word (take 8 (drop 24 bs))\<rparr>"

definition get_reply_hdr :: "bytes \<Rightarrow> reply_hdr" where
  "get_reply_hdr bs = \<lparr>rephdr_magic = be_word (take 8 bs), rephdr_seqno = be_word (take 4 (drop 8 bs)),
     rephdr_opno = be_word (take 4 (drop 12 bs)), rephdr_datalen = be_word (take 8 (drop 16 bs))\<rparr>"

section \<open>Sending a message\<close>

text \<open>The loop over the buffers; \<open>short\<close> is the error of a short count.\<close>

fun send_iovs ::
    "(bytes \<Rightarrow> 's \<Rightarrow> (errno + nat) \<times> 's) \<Rightarrow> errno \<Rightarrow> bytes list \<Rightarrow> 's \<Rightarrow> (errno + unit) \<times> 's" where
  "send_iovs put short [] s = (Inr (), s)"
| "send_iovs put short (b # bs) s =
     (case put b s of
        (Inl e, s) \<Rightarrow> (Inl e, s)
      | (Inr n, s) \<Rightarrow> if n \<noteq> length b then (Inl short, s) else send_iovs put short bs s)"

text \<open>\<open>datalen += iov_len\<close> over the buffers, modulo \<open>2 ^ 64\<close>.\<close>

definition total_len :: "nat list \<Rightarrow> u64" where
  "total_len lens = foldl (\<lambda>w n. w + word_of_nat n) 0 lens"

definition send_hdr ::
    "int \<Rightarrow> bytes \<Rightarrow> int list option \<Rightarrow> errno \<Rightarrow> sock \<Rightarrow> ((errno + unit) \<times> sock) option" where
  "send_hdr fd hdr fds short s =
    do { (r, s) \<leftarrow> (case fds of
                      Some fds \<Rightarrow> sandbox_rpc_send_rights fd hdr fds s
                    | None \<Rightarrow> Some (sandbox_rpc_send fd hdr s));
         Some (case r of
                 Inl e \<Rightarrow> (Inl e, s)
               | Inr n \<Rightarrow> if n \<noteq> HDR_SIZE then (Inl short, s) else (Inr (), s)) }"

definition send_message ::
    "int \<Rightarrow> bytes \<Rightarrow> int list option \<Rightarrow> bytes list \<Rightarrow> errno \<Rightarrow> sock \<Rightarrow> ((errno + unit) \<times> sock) option" where
  "send_message fd hdr fds bufs short s =
    do { (r, s) \<leftarrow> send_hdr fd hdr fds short s;
         Some (case r of
                 Inl e \<Rightarrow> (Inl e, s)
               | Inr _ \<Rightarrow> send_iovs (sandbox_rpc_send fd) short bufs s) }"

definition host_sendrpc ::
    "sandbox_cb \<Rightarrow> u32 \<Rightarrow> u32 \<Rightarrow> bytes list \<Rightarrow> int list option \<Rightarrow> sock \<Rightarrow> ((errno + unit) \<times> sock) option" where
  "host_sendrpc scb opno seqno req fds s =
    send_message (fd_host_end scb)
      (put_request_hdr \<lparr>reqhdr_magic = REQUEST_MAGIC, reqhdr_seqno = seqno, reqhdr_opno = opno,
         reqhdr_datalen = total_len (map length req), reqhdr_maxrepdatalen = 0\<rparr>)
      fds req EPIPE s"

definition sandbox_sendrpc_rights ::
    "sandbox_cb \<Rightarrow> u32 \<Rightarrow> u32 \<Rightarrow> bytes list \<Rightarrow> int list option \<Rightarrow> sock \<Rightarrow> ((errno + unit) \<times> sock) option" where
  "sandbox_sendrpc_rights scb opno seqno rep fds s =
    send_message (fd_sandbox_end scb)
      (put_reply_hdr \<lparr>rephdr_magic = REPLY_MAGIC, rephdr_seqno = seqno, rephdr_opno = opno,
         rephdr_datalen = total_len (map length rep)\<rparr>)
      fds rep EPIPE s"

definition sandbox_sendrpc ::
    "sandbox_cb \<Rightarrow> u32 \<Rightarrow> u32 \<Rightarrow> bytes list \<Rightarrow> sock \<Rightarrow> ((errno + unit) \<times> sock) option" where
  "sandbox_sendrpc scb opno seqno rep s = sandbox_sendrpc_rights scb opno seqno rep None s"

section \<open>Receiving a message\<close>

text \<open>\<open>while (totlen < datalen)\<close>.\<close>

function recv_body ::
    "(nat \<Rightarrow> 's \<Rightarrow> ((errno + bytes) \<times> 's) option) \<Rightarrow> nat \<Rightarrow> 's \<Rightarrow> ((errno + bytes) \<times> 's) option" where
  "recv_body get n s =
    (if n = 0 then Some (Inr [], s)
     else do {
       (r, s) \<leftarrow> get n s;
       case r of
         Inl e \<Rightarrow> Some (Inl e, s)
       | Inr bs \<Rightarrow>
           if bs = [] then Some (Inl EPIPE, s)
           else do {
             (r, s) \<leftarrow> recv_body get (n - length bs) s;
             Some (map_sum id (\<lambda>rest. bs @ rest) r, s) } })"
  by pat_completeness auto
termination by (relation "measure (\<lambda>(get, n, s). n)") auto

declare recv_body.simps [simp del]

definition ENOMEM :: errno where "ENOMEM = EOTHER 12"

text \<open>\<open>malloc\<close> gives blocks of up to \<open>heap\<close> bytes.\<close>

definition host_recvrpc ::
    "sandbox_cb \<Rightarrow> nat \<Rightarrow> sock \<Rightarrow> ((errno + u32 \<times> u32 \<times> bytes) \<times> sock) option" where
  "host_recvrpc scb heap s =
    do { (r, s) \<leftarrow> sandbox_rpc_recv (fd_host_end scb) HDR_SIZE s;
         case r of
           Inl e \<Rightarrow> Some (Inl e, s)
         | Inr bs \<Rightarrow>
             if length bs \<noteq> HDR_SIZE then Some (Inl ECHILD, s)
             else
               let h = get_reply_hdr bs; n = unat (rephdr_datalen h) in
               if rephdr_magic h \<noteq> REPLY_MAGIC then Some (Inl EBADRPC, s)
               else if n > heap then Some (Inl ENOMEM, s)
               else do {
                 (r, s) \<leftarrow> recv_body (sandbox_rpc_recv (fd_host_end scb)) n s;
                 Some (map_sum id (\<lambda>data. (rephdr_opno h, rephdr_seqno h, data)) r, s) } }"

definition dispose_opt :: "int list option \<Rightarrow> sock \<Rightarrow> sock" where
  "dispose_opt fds s = (case fds of None \<Rightarrow> s | Some fds \<Rightarrow> dispose_rights fds s)"

text \<open>A header, with descriptors where the caller has room for \<open>Some\<close> number of them.\<close>

definition recv_hdr ::
    "int \<Rightarrow> nat option \<Rightarrow> sock \<Rightarrow> ((errno + bytes \<times> int list option) \<times> sock) option" where
  "recv_hdr fd cap s =
    (case cap of
       Some n \<Rightarrow> map_option (\<lambda>(r, s). (map_sum id (\<lambda>(bs, fds). (bs, Some fds)) r, s))
                   (sandbox_rpc_recv_rights fd HDR_SIZE n s)
     | None \<Rightarrow> map_option (\<lambda>(r, s). (map_sum id (\<lambda>bs. (bs, None)) r, s))
                 (sandbox_rpc_recv fd HDR_SIZE s))"

definition sandbox_recvrpc_rights ::
    "sandbox_cb \<Rightarrow> nat \<Rightarrow> nat option \<Rightarrow> sock \<Rightarrow>
     ((errno + u32 \<times> u32 \<times> bytes \<times> int list option) \<times> sock) option" where
  "sandbox_recvrpc_rights scb heap cap s =
    do { (r, s) \<leftarrow> recv_hdr (fd_sandbox_end scb) cap s;
         case r of
           Inl e \<Rightarrow> Some (Inl e, s)
         | Inr (bs, fds) \<Rightarrow>
             if bs = [] then Some (Inl EPIPE, dispose_opt fds s)
             else if length bs \<noteq> HDR_SIZE then Some (Inl EBADMSG, dispose_opt fds s)
             else
               let h = get_request_hdr bs; n = unat (reqhdr_datalen h) in
               if reqhdr_magic h \<noteq> REQUEST_MAGIC then Some (Inl EBADMSG, dispose_opt fds s)
               else if n > heap then Some (Inl ENOMEM, dispose_opt fds s)
               else do {
                 (r, s) \<leftarrow> recv_body (sandbox_rpc_recv (fd_sandbox_end scb)) n s;
                 case r of
                   Inl e \<Rightarrow> Some (Inl e, dispose_opt fds s)
                 | Inr data \<Rightarrow> Some (Inr (reqhdr_opno h, reqhdr_seqno h, data, fds), s) } }"

definition sandbox_recvrpc ::
    "sandbox_cb \<Rightarrow> nat \<Rightarrow> sock \<Rightarrow> ((errno + u32 \<times> u32 \<times> bytes \<times> int list option) \<times> sock) option" where
  "sandbox_recvrpc scb heap s = sandbox_recvrpc_rights scb heap None s"

section \<open>The host's call\<close>

text \<open>The inner loop fills one buffer with \<open>space\<close> bytes left, of the \<open>left\<close> bytes to come.
  An error says whether the descriptors of the reply are closed: they are not when \<open>recv\<close>
  fails.\<close>

function fill ::
    "(nat \<Rightarrow> 's \<Rightarrow> ((errno + bytes) \<times> 's) option) \<Rightarrow> nat \<Rightarrow> nat \<Rightarrow> 's \<Rightarrow>
     (((errno \<times> bool) + bytes) \<times> 's) option" where
  "fill get space left s =
    (if left = 0 then Some (Inr [], s)
     else
       let want = min left space in
       do { (r, s) \<leftarrow> get want s;
            case r of
              Inl e \<Rightarrow> Some (Inl (e, False), s)
            | Inr bs \<Rightarrow>
                if length bs \<noteq> want then Some (Inl (ECHILD, True), s)
                else if space = want then Some (Inr bs, s)
                else do {
                  (r, s) \<leftarrow> fill get (space - want) (left - want) s;
                  Some (map_sum id (\<lambda>rest. bs @ rest) r, s) } })"
  by pat_completeness auto
termination by (relation "measure (\<lambda>(get, space, left, s). left)") auto

declare fill.simps [simp del]

fun scatter ::
    "(nat \<Rightarrow> 's \<Rightarrow> ((errno + bytes) \<times> 's) option) \<Rightarrow> nat list \<Rightarrow> nat \<Rightarrow> 's \<Rightarrow>
     (((errno \<times> bool) + bytes list) \<times> 's) option" where
  "scatter get [] left s = Some (Inr [], s)"
| "scatter get (n # ns) left s =
     do { (r, s) \<leftarrow> fill get n left s;
          case r of
            Inl e \<Rightarrow> Some (Inl e, s)
          | Inr bs \<Rightarrow>
              if length bs = left then Some (Inr [bs], s)
              else do {
                (r, s) \<leftarrow> scatter get ns (left - length bs) s;
                Some (map_sum id (\<lambda>bss. bs # bss) r, s) } }"

record host_rpc_params =
  rpc_scb :: sandbox_cb
  rpc_opno :: u32
  rpc_req :: "bytes list"
  rpc_req_fds :: "int list option"
  rpc_rep :: "nat list"             \<comment> \<open>the sizes of the caller's buffers\<close>
  rpc_rep_cap :: "nat option"

text \<open>The result: the buffers filled, \<open>*replenp\<close> and the descriptors.\<close>

definition host_rpc_rights ::
    "host_rpc_params \<Rightarrow> sock \<Rightarrow> ((errno + bytes list \<times> nat \<times> int list option) \<times> sock) option" where
  "host_rpc_rights p s =
    (let fd = fd_host_end (rpc_scb p);
         h = \<lparr>reqhdr_magic = REQUEST_MAGIC, reqhdr_seqno = 0, reqhdr_opno = rpc_opno p,
              reqhdr_datalen = total_len (map length (rpc_req p)),
              reqhdr_maxrepdatalen = total_len (rpc_rep p)\<rparr> in
     do { (r, s) \<leftarrow> send_message fd (put_request_hdr h) (rpc_req_fds p) (rpc_req p) ECHILD s;
          case r of
            Inl e \<Rightarrow> Some (Inl e, s)
          | Inr _ \<Rightarrow> do {
              (r, s) \<leftarrow> recv_hdr fd (rpc_rep_cap p) s;
              case r of
                Inl e \<Rightarrow> Some (Inl e, s)
              | Inr (bs, fds) \<Rightarrow>
                  if length bs \<noteq> HDR_SIZE then Some (Inl ECHILD, dispose_opt fds s)
                  else
                    let rh = get_reply_hdr bs in
                    if rephdr_magic rh \<noteq> REPLY_MAGIC \<or> rephdr_seqno rh \<noteq> 0 \<or>
                       rephdr_opno rh \<noteq> rpc_opno p \<or>
                       rephdr_datalen rh > reqhdr_maxrepdatalen h then
                      Some (Inl EBADRPC, dispose_opt fds s)
                    else do {
                      (r, s) \<leftarrow> scatter (sandbox_rpc_recv fd) (rpc_rep p) (unat (rephdr_datalen rh)) s;
                      Some (case r of
                              Inl (e, dispose) \<Rightarrow> (Inl e, if dispose then dispose_opt fds s else s)
                            | Inr bufs \<Rightarrow> (Inr (bufs, sum_list (map length bufs), fds), s)) } } })"

definition host_rpc ::
    "host_rpc_params \<Rightarrow> sock \<Rightarrow> ((errno + bytes list \<times> nat \<times> int list option) \<times> sock) option" where
  "host_rpc p s = host_rpc_rights (p\<lparr>rpc_req_fds := None, rpc_rep_cap := None\<rparr>) s"


section \<open>Headers arrive as sent\<close>

lemma length_be_bytes [simp]: "length (be_bytes n w) = n"
  by (simp add: be_bytes_def)

lemma be_bytes_Suc: "be_bytes (Suc n) w = ucast (drop_bit (8 * n) w) # be_bytes n w"
  by (simp add: be_bytes_def)

lemma foldl_be_bytes:
  "foldl (\<lambda>w b. push_bit 8 w OR ucast b) a (be_bytes n w) =
     push_bit (8 * n) a OR take_bit (8 * n) (w :: 'a::len word)"
proof (induction n arbitrary: a)
  case 0
  then show ?case by (simp add: be_bytes_def)
next
  case (Suc n)
  show ?case
    unfolding be_bytes_Suc foldl_Cons Suc
    by (rule bit_word_eqI)
       (auto simp: bit_or_iff bit_push_bit_iff bit_take_bit_iff bit_ucast_iff bit_drop_bit_eq
          ac_simps dest: bit_imp_le_length)
qed

lemma be_word_be_bytes: "LENGTH('a) \<le> 8 * n \<Longrightarrow> be_word (be_bytes n w) = (w :: 'a::len word)"
  unfolding be_word_def foldl_be_bytes by (simp add: take_bit_word_eq_self)

lemma length_put_hdr [simp]:
  "length (put_request_hdr h) = HDR_SIZE" "length (put_reply_hdr r) = HDR_SIZE"
  by (simp_all add: put_request_hdr_def put_reply_hdr_def HDR_SIZE_def)

lemma get_put_request_hdr [simp]: "get_request_hdr (put_request_hdr h) = h"
  by (simp add: get_request_hdr_def put_request_hdr_def be_word_be_bytes)

lemma get_put_reply_hdr [simp]: "get_reply_hdr (put_reply_hdr h) = h"
  by (simp add: get_reply_hdr_def put_reply_hdr_def be_word_be_bytes)

lemma foldl_total_len: "foldl (\<lambda>w n. w + word_of_nat n) a lens = a + word_of_nat (sum_list lens)"
  by (induction lens arbitrary: a) simp_all

lemma total_len_sum: "sum_list lens < 2 ^ 64 \<Longrightarrow> unat (total_len lens) = sum_list lens"
  by (simp add: total_len_def foldl_total_len unat_of_nat)

section \<open>The loops on a channel\<close>

context byte_channel
begin

lemma send_iovs_ok:
  "calm s \<Longrightarrow> \<exists>s'. send_iovs put short bufs s = (Inr (), s') \<and>
     sent s' = sent s @ concat bufs \<and> arrived s' = arrived s \<and> calm s'"
proof (induction bufs arbitrary: s)
  case (Cons b bufs)
  from put_ok [OF Cons.prems, of b] obtain s1 where
    s1: "put b s = (Inr (length b), s1)" "sent s1 = sent s @ b" "arrived s1 = arrived s" "calm s1"
    by blast
  from Cons.IH [OF s1(4)] s1 show ?case by auto
qed simp

lemma recv_body_ok:
  assumes "calm s" "n \<le> length (arrived s)"
  shows "\<exists>s'. recv_body get n s = Some (Inr (take n (arrived s)), s') \<and>
    arrived s' = drop n (arrived s) \<and> sent s' = sent s \<and> calm s'"
proof (cases "n = 0")
  case True
  with assms show ?thesis by (subst recv_body.simps) auto
next
  case False
  from get_ok [OF assms] obtain s1 where s1: "get n s = Some (Inr (take n (arrived s)), s1)"
    "arrived s1 = drop n (arrived s)" "sent s1 = sent s" "calm s1" by blast
  have "recv_body get 0 s1 = Some (Inr [], s1)" by (subst recv_body.simps) simp
  with s1 False assms show ?thesis by (subst recv_body.simps) auto
qed

lemma fill_ok:
  assumes "calm s" "min left space \<le> length (arrived s)"
  shows "\<exists>s'. fill get space left s = Some (Inr (take (min left space) (arrived s)), s') \<and>
    arrived s' = drop (min left space) (arrived s) \<and> sent s' = sent s \<and> calm s'"
proof (cases "left = 0")
  case True
  with assms show ?thesis by (subst fill.simps) auto
next
  case False
  from get_ok [OF assms] obtain s1 where s1:
    "get (min left space) s = Some (Inr (take (min left space) (arrived s)), s1)"
    "arrived s1 = drop (min left space) (arrived s)" "sent s1 = sent s" "calm s1" by blast
  have "fill get (space - left) 0 s1 = Some (Inr [], s1)" by (subst fill.simps) simp
  with s1 False assms show ?thesis by (subst fill.simps) (auto simp: min_def)
qed

text \<open>The data are cut into the buffers in order.\<close>

lemma scatter_ok:
  assumes "calm s" "left \<le> length (arrived s)" "left \<le> sum_list caps"
  shows "\<exists>bufs s'. scatter get caps left s = Some (Inr bufs, s') \<and>
    concat bufs = take left (arrived s) \<and> arrived s' = drop left (arrived s) \<and>
    sent s' = sent s \<and> calm s'"
  using assms
proof (induction caps arbitrary: left s)
  case (Cons c caps)
  from Cons.prems(2) have "min left c \<le> length (arrived s)" by linarith
  from fill_ok [OF Cons.prems(1) this] obtain s1 where
    s1: "fill get c left s = Some (Inr (take (min left c) (arrived s)), s1)"
      "arrived s1 = drop (min left c) (arrived s)" "sent s1 = sent s" "calm s1"
    by blast
  show ?case
  proof (cases "left \<le> c")
    case True
    with s1 Cons.prems show ?thesis by (auto simp: min_def)
  next
    case False
    have "left - c \<le> length (arrived s1)" "left - c \<le> sum_list caps"
      using s1 False Cons.prems by (auto simp: min_def)
    from Cons.IH [OF s1(4) this] s1 False obtain bufs s2 where
      "scatter get caps (left - c) s1 = Some (Inr bufs, s2)"
      "concat bufs = take (left - c) (drop c (arrived s))"
      "arrived s2 = drop (left - c) (drop c (arrived s))" "sent s2 = sent s" "calm s2"
      by (auto simp: min_def)
    moreover have "take c (arrived s) @ take (left - c) (drop c (arrived s)) = take left (arrived s)"
      using False by (simp add: take_add [symmetric])
    ultimately show ?thesis using s1 False Cons.prems by (auto simp: min_def)
  qed
qed auto

text \<open>On any channel no buffer takes more than its size.\<close>

lemma fill_bound:
  assumes "fill get space left s = Some (Inr bs, s')"
  shows "length bs \<le> space \<and> length bs \<le> left"
proof -
  note eq = assms [unfolded fill.simps [of get space left s]]
  show ?thesis
  proof (cases "left = 0")
    case True
    with eq show ?thesis by simp
  next
    case False
    with eq obtain b s1 where b: "get (min left space) s = Some (Inr b, s1)" "length b = min left space"
      by (auto simp: Let_def split: Option.bind_splits sum.splits if_splits)
    have "fill get (space - left) 0 s1 = Some (Inr [], s1)" by (subst fill.simps) simp
    with eq False b show ?thesis
      by (cases "space \<le> left") (auto simp: Let_def min_def split: if_splits)
  qed
qed

lemma scatter_bound:
  "scatter get caps left s = Some (Inr bufs, s') \<Longrightarrow>
     length bufs \<le> length caps \<and> (\<forall>i < length bufs. length (bufs ! i) \<le> caps ! i) \<and>
     sum_list (map length bufs) \<le> left"
proof (induction caps arbitrary: left s bufs s')
  case (Cons c caps)
  then obtain b s1 where b: "fill get c left s = Some (Inr b, s1)"
    by (auto split: Option.bind_splits sum.splits)
  note fb = fill_bound [OF b]
  show ?case
  proof (cases "length b = left")
    case True
    with Cons.prems b fb show ?thesis by auto
  next
    case False
    with Cons.prems b obtain bss where "scatter get caps (left - length b) s1 = Some (Inr bss, s')"
        "bufs = b # bss"
      by (auto simp: map_sum_def split: Option.bind_splits sum.splits)
    with Cons.IH fb show ?thesis by (fastforce simp: nth_Cons split: nat.split)
  qed
qed auto

end


section \<open>Properties\<close>

text \<open>What a call added to the bytes sent.\<close>

definition added :: "sock \<Rightarrow> sock \<Rightarrow> bytes" where
  "added s s' = drop (length (sent_bytes s)) (sent_bytes s')"

text \<open>Bytes arriving in pieces of the given sizes, the rest last.\<close>

fun cut :: "nat list \<Rightarrow> bytes \<Rightarrow> piece list" where
  "cut [] bs = [([], bs)]"
| "cut (k # ks) bs = ([], take k bs) # cut ks (drop k bs)"

lemma concat_cut: "concat (map snd (cut ks bs)) = bs"
  by (induction ks bs rule: cut.induct) simp_all

lemma arrived_cut [simp]: "arrived_bytes (s\<lparr>rx := cut ks bs\<rparr>) = bs"
  by (simp add: arrived_bytes_def concat_cut)

lemma send_message_ok:
  assumes "\<not> bad_fd fd" "gentle (events s)" "length hdr = HDR_SIZE"
  shows "\<exists>s'. send_message fd hdr None bufs short s = Some (Inr (), s') \<and>
    added s s' = hdr @ concat bufs \<and> arrived_bytes s' = arrived_bytes s \<and> gentle (events s')"
proof -
  from channel.put_ok [of fd s hdr] assms obtain s1 where
    s1: "sandbox_rpc_send fd hdr s = (Inr HDR_SIZE, s1)" "sent_bytes s1 = sent_bytes s @ hdr"
      "arrived_bytes s1 = arrived_bytes s" "gentle (events s1)"
    by auto
  from channel.send_iovs_ok [of fd s1 short bufs] assms s1 show ?thesis
    by (auto simp: send_message_def send_hdr_def added_def)
qed

lemma recv_hdr_ok:
  assumes "\<not> bad_fd fd" "gentle (events s)" "arrived_bytes s = hdr @ later" "length hdr = HDR_SIZE"
  shows "\<exists>s'. recv_hdr fd None s = Some (Inr (hdr, None), s') \<and> arrived_bytes s' = later \<and>
    sent_bytes s' = sent_bytes s \<and> gentle (events s')"
  using channel.get_ok [of fd s HDR_SIZE] assms by (auto simp: recv_hdr_def)

lemma recv_data_ok:
  assumes "\<not> bad_fd fd" "gentle (events s)" "arrived_bytes s = data @ later"
  shows "\<exists>s'. recv_body (sandbox_rpc_recv fd) (length data) s = Some (Inr data, s') \<and>
    arrived_bytes s' = later \<and> gentle (events s')"
  using channel.recv_body_ok [of fd s "length data"] assms by auto

text \<open>C9: A request the host sends is received by the sandbox as it was sent: its operation,
  its sequence number and the bytes of all its buffers, however the kernel cuts up the
  transfers and interrupts the calls on either side, and the bytes after it stay unread.\<close>

theorem request_arrives:
  assumes "\<not> bad_fd (fd_host_end scb)" "\<not> bad_fd (fd_sandbox_end scb)" "gentle (events h)"
    "gentle (events sb)" "length (concat req) < 2 ^ 64" "length (concat req) \<le> heap"
  shows "\<exists>h'. host_sendrpc scb opno seqno req None h = Some (Inr (), h') \<and>
    (\<exists>sb'. sandbox_recvrpc scb heap (sb\<lparr>rx := cut ks (added h h' @ later)\<rparr>) =
        Some (Inr (opno, seqno, concat req, None), sb') \<and> arrived_bytes sb' = later)"
proof -
  define hdr where "hdr = put_request_hdr \<lparr>reqhdr_magic = REQUEST_MAGIC, reqhdr_seqno = seqno,
    reqhdr_opno = opno, reqhdr_datalen = total_len (map length req), reqhdr_maxrepdatalen = 0\<rparr>"
  have hdr: "length hdr = HDR_SIZE" by (simp add: hdr_def)
  have n: "unat (total_len (map length req)) = length (concat req)"
    using assms(5) total_len_sum [of "map length req"] by (simp add: length_concat)
  from send_message_ok [OF assms(1,3) hdr, of req EPIPE] obtain h' where
    h': "host_sendrpc scb opno seqno req None h = Some (Inr (), h')" "added h h' = hdr @ concat req"
    by (auto simp: host_sendrpc_def hdr_def)
  let ?sb = "sb\<lparr>rx := cut ks (added h h' @ later)\<rparr>"
  have "\<exists>sb'. sandbox_recvrpc scb heap ?sb = Some (Inr (opno, seqno, concat req, None), sb') \<and>
      arrived_bytes sb' = later"
  proof -
    have "gentle (events ?sb)" using assms(4) by simp
    from recv_hdr_ok [OF assms(2) this _ hdr, of "concat req @ later"] h' obtain s1 where
      s1: "recv_hdr (fd_sandbox_end scb) None ?sb = Some (Inr (hdr, None), s1)"
        "arrived_bytes s1 = concat req @ later" "gentle (events s1)"
      by auto
    have "hdr \<noteq> []" using hdr by (auto simp: HDR_SIZE_def)
    with recv_data_ok [OF assms(2) s1(3,2)] s1 hdr assms(6) n show ?thesis
      by (auto simp: sandbox_recvrpc_def sandbox_recvrpc_rights_def hdr_def Let_def)
  qed
  with h' show ?thesis by blast
qed

text \<open>The ends, the parameters and the control block of the witnesses.\<close>

definition sock0 :: "kevent list \<Rightarrow> sock" where
  "sock0 ev = \<lparr>rx = [], rx_eof = False, tx = [], events = ev, closed = []\<rparr>"

definition scb0 :: sandbox_cb where
  "scb0 = scb_calloc\<lparr>fd_host_end := 3, fd_sandbox_end := 4\<rparr>"

definition params0 :: "u32 \<Rightarrow> host_rpc_params" where
  "params0 opno = \<lparr>rpc_scb = scb0, rpc_opno = opno, rpc_req = [[5]], rpc_req_fds = None,
     rpc_rep = [2, 4], rpc_rep_cap = None\<rparr>"

theorem request_arrives_witness:
  "\<exists>h'. host_sendrpc scb0 7 1 [[1, 2], [3]] None (sock0 [Xfer 2]) = Some (Inr (), h') \<and>
    (\<exists>sb'. sandbox_recvrpc scb0 9 ((sock0 [KErr EINTR])\<lparr>rx := cut [5] (added (sock0 [Xfer 2]) h' @ [])\<rparr>) =
        Some (Inr (7, 1, [1, 2, 3], None), sb') \<and> arrived_bytes sb' = [])"
  using request_arrives [of scb0 "sock0 [Xfer 2]" "sock0 [KErr EINTR]" "[[1, 2], [3]]" 9 7 1 "[5]" "[]"]
  by (simp add: scb0_def sock0_def bad_fd_def gentle_def)

text \<open>C10: The reply of the sandbox to a call of \<open>host_rpc\<close> reaches the caller: the bytes of its
  buffers are those of the caller's, in order, and the count is theirs, when they fit; the
  request sent is the one the caller made.\<close>

theorem reply_arrives:
  assumes "\<not> bad_fd (fd_host_end (rpc_scb p))" "\<not> bad_fd (fd_sandbox_end scb)"
    "gentle (events h)" "gentle (events sb)" "sum_list (rpc_rep p) < 2 ^ 64"
    "length (concat rep) \<le> sum_list (rpc_rep p)"
  shows "\<exists>sb'. sandbox_sendrpc scb (rpc_opno p) 0 rep sb = Some (Inr (), sb') \<and>
    (let h = h\<lparr>rx := cut ks (added sb sb' @ later)\<rparr> in
     \<exists>bufs h'. host_rpc p h = Some (Inr (bufs, length (concat rep), None), h') \<and>
        concat bufs = concat rep \<and> arrived_bytes h' = later \<and>
        added h h' = put_request_hdr \<lparr>reqhdr_magic = REQUEST_MAGIC, reqhdr_seqno = 0,
          reqhdr_opno = rpc_opno p, reqhdr_datalen = total_len (map length (rpc_req p)),
          reqhdr_maxrepdatalen = total_len (rpc_rep p)\<rparr> @ concat (rpc_req p))"
proof -
  define rhdr where "rhdr = put_reply_hdr \<lparr>rephdr_magic = REPLY_MAGIC, rephdr_seqno = 0,
    rephdr_opno = rpc_opno p, rephdr_datalen = total_len (map length rep)\<rparr>"
  define hdr where "hdr = put_request_hdr \<lparr>reqhdr_magic = REQUEST_MAGIC, reqhdr_seqno = 0,
    reqhdr_opno = rpc_opno p, reqhdr_datalen = total_len (map length (rpc_req p)),
    reqhdr_maxrepdatalen = total_len (rpc_rep p)\<rparr>"
  let ?fd = "fd_host_end (rpc_scb p)"
  have hdr: "length hdr = HDR_SIZE" and rhdr: "length rhdr = HDR_SIZE" by (simp_all add: hdr_def rhdr_def)
  have n: "unat (total_len (map length rep)) = length (concat rep)"
    using assms(5,6) total_len_sum [of "map length rep"] by (simp add: length_concat)
  have fits: "\<not> total_len (rpc_rep p) < total_len (map length rep)"
    using assms(5,6) n total_len_sum [OF assms(5)] by (simp add: word_less_nat_alt)
  from send_message_ok [OF assms(2,4) rhdr, of rep EPIPE] obtain sb' where
    sb': "sandbox_sendrpc scb (rpc_opno p) 0 rep sb = Some (Inr (), sb')" "added sb sb' = rhdr @ concat rep"
    by (auto simp: sandbox_sendrpc_def sandbox_sendrpc_rights_def rhdr_def)
  let ?h = "h\<lparr>rx := cut ks (added sb sb' @ later)\<rparr>"
  have "\<exists>bufs h'. host_rpc p ?h = Some (Inr (bufs, length (concat rep), None), h') \<and>
      concat bufs = concat rep \<and> arrived_bytes h' = later \<and> added ?h h' = hdr @ concat (rpc_req p)"
  proof -
    have "gentle (events ?h)" using assms(3) by simp
    from send_message_ok [OF assms(1) this hdr, of "rpc_req p" ECHILD] sb' obtain h1 where
      h1: "send_message ?fd hdr None (rpc_req p) ECHILD ?h = Some (Inr (), h1)"
        "added ?h h1 = hdr @ concat (rpc_req p)" "arrived_bytes h1 = rhdr @ concat rep @ later"
        "gentle (events h1)"
      by auto
    from recv_hdr_ok [OF assms(1) h1(4,3) rhdr] obtain h2 where
      h2: "recv_hdr ?fd None h1 = Some (Inr (rhdr, None), h2)" "arrived_bytes h2 = concat rep @ later"
        "sent_bytes h2 = sent_bytes h1" "gentle (events h2)" by blast
    from channel.scatter_ok [of ?fd h2 "length (concat rep)" "rpc_rep p"] assms(1,6) h2 obtain bufs h3 where
      h3: "scatter (sandbox_rpc_recv ?fd) (rpc_rep p) (length (concat rep)) h2 = Some (Inr bufs, h3)"
        "concat bufs = concat rep" "arrived_bytes h3 = later" "sent_bytes h3 = sent_bytes h2"
      by auto
    have "sum_list (map length bufs) = length (concat rep)"
      using arg_cong [OF h3(2), of length] by (simp add: length_concat)
    with h1 h2 h3 rhdr n fits show ?thesis
      by (simp add: host_rpc_def host_rpc_rights_def hdr_def [symmetric] rhdr_def Let_def added_def)
  qed
  with sb' show ?thesis unfolding hdr_def Let_def by blast
qed

theorem reply_arrives_witness:
  "\<exists>sb'. sandbox_sendrpc scb0 7 0 [[1], [2, 3]] (sock0 [Xfer 4]) = Some (Inr (), sb') \<and>
    (let h = (sock0 [KErr EINTR])\<lparr>rx := cut [10] (added (sock0 [Xfer 4]) sb' @ [8])\<rparr> in
     \<exists>bufs h'. host_rpc (params0 7) h = Some (Inr (bufs, 3, None), h') \<and>
        concat bufs = [1, 2, 3] \<and> arrived_bytes h' = [8])"
  using reply_arrives [of "params0 7" scb0 "sock0 [KErr EINTR]" "sock0 [Xfer 4]" "[[1], [2, 3]]" "[10]" "[8]"]
  by (fastforce simp: scb0_def sock0_def params0_def bad_fd_def gentle_def Let_def numeral_3_eq_3)



end
