(* ===== verification/Canonical.thy ===== *)
theory Canonical imports Prelude begin

text \<open>
  The canonical Huffman code of RFC 1951, section 3.2.2, as both the compressor and the
  decompressor build it: the symbols sorted by code length, each taking its share of an
  interval of \<open>2 ^ 15\<close> points, and the bits of the start of its share, most significant
  first, as its code.  Codes travel with the most significant bit first, so the input seen
  as a number with its first bit lowest is reversed by \<open>revb\<close>.
\<close>

section \<open>Reversing bits\<close>

definition revb :: "nat \<Rightarrow> nat \<Rightarrow> nat" where
  "revb n w = horner_sum of_bool 2 (map (\<lambda>i. bit w (n - 1 - i)) [0..<n])"

lemma bit_revb: "bit (revb n w) i \<longleftrightarrow> i < n \<and> bit w (n - 1 - i)"
  by (auto simp: revb_def bit_horner_sum_bit_iff)

lemma revb_less: "revb n w < 2 ^ n"
  using horner_sum_of_bool_2_less [of "map (\<lambda>i. bit w (n - 1 - i)) [0..<n]"]
  by (simp add: revb_def)

lemma bit_mod_power: "bit (w mod 2 ^ n) i \<longleftrightarrow> i < n \<and> bit (w :: nat) i"
  using bit_take_bit_iff [of n w i] by (simp add: take_bit_eq_mod)

lemma bit_div_power: "bit (w div 2 ^ n) i \<longleftrightarrow> bit (w :: nat) (n + i)"
  using bit_drop_bit_eq [of n w] by (simp add: drop_bit_eq_div fun_eq_iff)

lemma revb_revb: "w < 2 ^ n \<Longrightarrow> revb n (revb n w) = w"
proof (rule bit_eqI)
  fix i assume "w < 2 ^ n"
  then have "take_bit n w = w" by (simp add: take_bit_nat_eq_self_iff)
  then have "bit w i \<longleftrightarrow> i < n \<and> bit w i" by (metis bit_take_bit_iff)
  then show "bit (revb n (revb n w)) i \<longleftrightarrow> bit w i" by (auto simp: bit_revb)
qed

lemma revb_0 [simp]: "revb n 0 = 0"
  by (rule bit_eqI) (simp add: bit_revb)

text \<open>The low bits of a window are the reversed code of length \<open>l\<close> just when its reversal
  is in the interval of the code.\<close>

lemma window_prefix_iff:
  assumes "l \<le> n" "2 ^ (n - l) dvd g"
  shows "w mod 2 ^ l = revb n g \<longleftrightarrow> revb n w div 2 ^ (n - l) = g mod 2 ^ n div 2 ^ (n - l)"
proof -
  have low: "\<not> bit g i" if "i < n - l" for i
  proof -
    obtain q where "g = 2 ^ (n - l) * q" using assms(2) by (auto simp: dvd_def)
    then have "g = push_bit (n - l) q" by (simp add: push_bit_eq_mult)
    then show ?thesis using that by (simp add: bit_push_bit_iff)
  qed
  have "w mod 2 ^ l = revb n g \<longleftrightarrow> (\<forall>i. i < l \<and> bit w i \<longleftrightarrow> i < n \<and> bit g (n - 1 - i))"
    unfolding bit_eq_iff bit_mod_power bit_revb by simp
  also have "\<dots> \<longleftrightarrow> (\<forall>i<l. bit w i \<longleftrightarrow> bit g (n - 1 - i))"
  proof -
    have "\<not> bit g (n - 1 - i)" if "i < n" "\<not> i < l" for i
      using that assms(1) by (intro low) simp
    moreover have "i < n" if "i < l" for i using that assms(1) by simp
    ultimately show ?thesis by blast
  qed
  also have "\<dots> \<longleftrightarrow> (\<forall>i<l. bit w (l - 1 - i) \<longleftrightarrow> bit g (n - l + i))"
  proof
    assume h: "\<forall>i<l. bit w i \<longleftrightarrow> bit g (n - 1 - i)"
    show "\<forall>i<l. bit w (l - 1 - i) \<longleftrightarrow> bit g (n - l + i)"
    proof (intro allI impI)
      fix i assume "i < l"
      then have a: "l - 1 - i < l" and b: "n - 1 - (l - 1 - i) = n - l + i" using assms(1) by auto
      from h [rule_format, OF a] show "bit w (l - 1 - i) \<longleftrightarrow> bit g (n - l + i)" unfolding b .
    qed
  next
    assume h: "\<forall>i<l. bit w (l - 1 - i) \<longleftrightarrow> bit g (n - l + i)"
    show "\<forall>i<l. bit w i \<longleftrightarrow> bit g (n - 1 - i)"
    proof (intro allI impI)
      fix i assume "i < l"
      then have a: "l - 1 - i < l" and b: "l - 1 - (l - 1 - i) = i" "n - l + (l - 1 - i) = n - 1 - i"
        using assms(1) by auto
      from h [rule_format, OF a] show "bit w i \<longleftrightarrow> bit g (n - 1 - i)" unfolding b .
    qed
  qed
  also have "\<dots> \<longleftrightarrow> revb n w div 2 ^ (n - l) = g mod 2 ^ n div 2 ^ (n - l)"
  proof -
    have n: "n - l + i < n \<longleftrightarrow> i < l" "i < l \<Longrightarrow> n - 1 - (n - l + i) = l - 1 - i" for i
      using assms(1) by auto
    have a: "bit (revb n w div 2 ^ (n - l)) i \<longleftrightarrow> i < l \<and> bit w (l - 1 - i)" for i
      unfolding bit_div_power bit_revb n(1) using n(2) [of i] by (cases "i < l") simp_all
    have b: "bit (g mod 2 ^ n div 2 ^ (n - l)) i \<longleftrightarrow> i < l \<and> bit g (n - l + i)" for i
      unfolding bit_div_power bit_mod_power n(1) ..
    show ?thesis unfolding bit_eq_iff a b by auto
  qed
  finally show ?thesis .
qed


section \<open>Incrementing backwards\<close>

text \<open>Adding one to a number sets its lowest clear bit and clears those below.\<close>

lemma bit_Suc_low_ones:
  assumes "\<forall>i<j. bit g i" "\<not> bit (g :: nat) j"
  shows "bit (g + 1) i \<longleftrightarrow> i = j \<or> j < i \<and> bit g i"
proof -
  have "g mod 2 ^ j = mask j"
    using assms(1) by (intro bit_eqI) (auto simp: bit_mod_power bit_mask_iff)
  moreover have "g div 2 ^ j = 2 * (g div 2 ^ (j + 1))"
  proof -
    have "even (g div 2 ^ j)" using assms(2) by (simp add: bit_iff_odd)
    moreover have "g div 2 ^ (j + 1) = g div 2 ^ j div 2"
      by (simp add: div_mult2_eq power_Suc2 del: power_Suc)
    ultimately show ?thesis by simp
  qed
  ultimately have "g mod 2 ^ j + 1 = 2 ^ j" "2 ^ j * (g div 2 ^ j) = 2 ^ (j + 1) * (g div 2 ^ (j + 1))"
    by (simp_all add: mask_eq_exp_minus_1)
  moreover have "g + 1 = (g mod 2 ^ j + 1) + 2 ^ j * (g div 2 ^ j)" by simp
  ultimately have g: "g + 1 = 2 ^ j + 2 ^ (j + 1) * (g div 2 ^ (j + 1))" by simp
  have "(2 ^ j :: nat) < 2 ^ (j + 1)" by simp
  from nat_or_push_bit [OF this, of "drop_bit (j + 1) g"]
  have "g + 1 = 2 ^ j OR push_bit (j + 1) (drop_bit (j + 1) g)"
    unfolding g by (simp add: drop_bit_eq_div mult.commute)
  then have "bit (g + 1) i \<longleftrightarrow> bit (2 ^ j :: nat) i \<or> bit (push_bit (j + 1) (drop_bit (j + 1) g)) i"
    by (simp only: bit_or_iff)
  also have "\<dots> \<longleftrightarrow> i = j \<or> j + 1 \<le> i \<and> bit g i"
    by (auto simp only: bit_exp_iff bit_push_bit_iff bit_drop_bit_eq possible_bit_nat o_apply
        le_add_diff_inverse)
  finally show ?thesis by (simp add: Suc_le_eq)
qed


lemma revb_shift: "l \<le> n \<Longrightarrow> revb n (2 ^ (n - l) * g) = revb l g"
proof (rule bit_eqI)
  fix i assume l: "l \<le> n"
  have "bit (2 ^ (n - l) * g) j \<longleftrightarrow> n - l \<le> j \<and> bit g (j - (n - l))" for j
    using bit_push_bit_iff [of "n - l" g j] by (simp add: push_bit_eq_mult mult.commute)
  then have b: "bit (revb n (2 ^ (n - l) * g)) i \<longleftrightarrow> i < n \<and> n - l \<le> n - 1 - i \<and> bit g (n - 1 - i - (n - l))"
    unfolding bit_revb by blast
  show "bit (revb n (2 ^ (n - l) * g)) i \<longleftrightarrow> bit (revb l g) i"
  proof (cases "i < l")
    case True
    then have "i < n" "n - l \<le> n - 1 - i" "n - 1 - i - (n - l) = l - 1 - i" using l by linarith+
    then show ?thesis using True unfolding b by (simp only: bit_revb simp_thms)
  next
    case False
    then have "\<not> (i < n \<and> n - l \<le> n - 1 - i)" using l by linarith
    then have "\<not> bit (revb n (2 ^ (n - l) * g)) i" unfolding b by blast
    moreover have "\<not> bit (revb l g) i" using False unfolding bit_revb by blast
    ultimately show ?thesis by blast
  qed
qed

text \<open>\<open>while (huff & incr) incr >>= 1;\<close> and the update behind it.\<close>

function skip_ones :: "nat \<Rightarrow> nat \<Rightarrow> nat" where
  "skip_ones huff incr = (if huff AND incr \<noteq> 0 then skip_ones huff (incr div 2) else incr)"
  by pat_completeness auto
termination
proof (relation "measure snd", goal_cases)
  case (2 huff incr)
  then have "incr \<noteq> 0" by (cases incr) auto
  then show ?case by simp
qed simp

declare skip_ones.simps [simp del]

definition back_incr :: "nat \<Rightarrow> nat \<Rightarrow> nat" where
  "back_incr huff len =
     (let incr = skip_ones huff (2 ^ (len - 1))
      in if incr \<noteq> 0 then (huff AND (incr - 1)) + incr else 0)"

lemma skip_ones_revb:
  assumes "j \<le> l" "\<forall>i<j. bit g i"
  shows "\<exists>t \<le> l. (\<forall>i<t. bit g i) \<and> (t < l \<longrightarrow> \<not> bit g t) \<and>
    skip_ones (revb l g) (if j = l then 0 else 2 ^ (l - 1 - j)) = (if t = l then 0 else 2 ^ (l - 1 - t))"
  using assms
proof (induction "l - j" arbitrary: j)
  case 0
  then show ?case by (subst skip_ones.simps) auto
next
  case (Suc d)
  then have j: "j < l" "l - 1 - (l - 1 - j) = j" by auto
  have "revb l g AND 2 ^ (l - 1 - j) \<noteq> 0 \<longleftrightarrow> bit (revb l g) (l - 1 - j)"
    by (simp add: bit_iff_and_push_bit_not_eq_0 push_bit_of_1)
  with j have b: "revb l g AND 2 ^ (l - 1 - j) \<noteq> 0 \<longleftrightarrow> bit g j"
    by (simp only: bit_revb) simp
  show ?case
  proof (cases "bit g j")
    case False
    with b j Suc.prems show ?thesis by (subst skip_ones.simps) auto
  next
    case True
    have half: "2 ^ (l - 1 - j) div 2 = (if Suc j = l then 0 else 2 ^ (l - 1 - Suc j) :: nat)"
      using j(1) by (cases "l - 1 - j") (auto simp: Suc_diff_Suc)
    have "\<forall>i<Suc j. bit g i" using True Suc.prems by (simp add: less_Suc_eq)
    moreover have "d = l - Suc j" "Suc j \<le> l" using Suc.hyps(2) j(1) by auto
    ultimately have ih: "\<exists>t \<le> l. (\<forall>i<t. bit g i) \<and> (t < l \<longrightarrow> \<not> bit g t) \<and>
        skip_ones (revb l g) (2 ^ (l - 1 - j) div 2) = (if t = l then 0 else 2 ^ (l - 1 - t))"
      unfolding half by (intro Suc.hyps(1))
    have "skip_ones (revb l g) (2 ^ (l - 1 - j)) = skip_ones (revb l g) (2 ^ (l - 1 - j) div 2)"
      using True b by (subst skip_ones.simps) simp
    with ih j(1) show ?thesis by simp
  qed
qed

lemma back_incr_revb:
  assumes "1 \<le> l" "g < 2 ^ l"
  shows "back_incr (revb l g) l = revb l (g + 1)"
proof -
  have high: "\<not> bit g i" if "l \<le> i" for i
  proof -
    have "take_bit l g = g" using assms(2) by (simp add: take_bit_nat_eq_self_iff)
    then show ?thesis using that by (metis bit_take_bit_iff not_less)
  qed
  from skip_ones_revb [of 0 l g] assms(1) obtain t where t: "t \<le> l" "\<forall>i<t. bit g i" "t < l \<longrightarrow> \<not> bit g t"
      "skip_ones (revb l g) (2 ^ (l - 1)) = (if t = l then 0 else 2 ^ (l - 1 - t))"
    by auto
  have "\<not> bit g t" using t high by (cases "t < l") auto
  note suc = bit_Suc_low_ones [OF t(2) this]
  show ?thesis
  proof (cases "t = l")
    case True
    then have "revb l (g + 1) = 0" using suc by (intro bit_eqI) (auto simp: bit_revb)
    with True t show ?thesis by (simp add: back_incr_def)
  next
    case False
    have "(revb l g AND mask (l - 1 - t)) + 2 ^ (l - 1 - t) = revb l (g + 1)"
    proof -
      have "(revb l g AND mask (l - 1 - t)) + 2 ^ (l - 1 - t) =
          (revb l g AND mask (l - 1 - t)) OR push_bit (l - 1 - t) 1"
        by (subst nat_or_push_bit) (simp_all add: take_bit_nat_less_exp flip: take_bit_eq_mask)
      also have "\<dots> = revb l (g + 1)"
      proof (rule bit_eqI)
        fix i
        have "bit ((revb l g AND mask (l - 1 - t)) OR push_bit (l - 1 - t) 1) i \<longleftrightarrow>
            i < l - 1 - t \<and> i < l \<and> bit g (l - 1 - i) \<or> i = l - 1 - t"
          by (auto simp: bit_or_iff bit_and_iff bit_mask_iff bit_exp_iff bit_revb push_bit_of_1)
        also have "\<dots> \<longleftrightarrow> i < l \<and> (l - 1 - i = t \<or> t < l - 1 - i \<and> bit g (l - 1 - i))"
        proof -
          have "i = l - 1 - t \<longleftrightarrow> i < l \<and> l - 1 - i = t" "i < l - 1 - t \<longleftrightarrow> i < l \<and> t < l - 1 - i"
            using False t(1) by linarith+
          then show ?thesis by blast
        qed
        also have "\<dots> \<longleftrightarrow> bit (revb l (g + 1)) i" by (simp only: bit_revb suc)
        finally show "bit ((revb l g AND mask (l - 1 - t)) OR push_bit (l - 1 - t) 1) i \<longleftrightarrow>
          bit (revb l (g + 1)) i" .
      qed
      finally show ?thesis .
    qed
    with False t show ?thesis by (simp add: back_incr_def mask_eq_exp_minus_1)
  qed
qed


section \<open>The symbols in the order of their codes\<close>

definition MAXBITS :: nat where "MAXBITS = 15"

text \<open>By length, and in the order of the alphabet among those of one length; a length of 0
  means that the symbol does not occur.\<close>

definition of_len :: "nat list \<Rightarrow> nat \<Rightarrow> nat list" where
  "of_len lens l = filter (\<lambda>s. lens ! s = l) [0..<length lens]"

definition symbols :: "nat list \<Rightarrow> nat list" where
  "symbols lens = concat (map (of_len lens) [1..<Suc MAXBITS])"

definition code_len :: "nat list \<Rightarrow> nat \<Rightarrow> nat" where
  "code_len lens k = lens ! (symbols lens ! k)"

text \<open>Where the interval of the \<open>k\<close>-th symbol starts.\<close>

definition gpos :: "nat list \<Rightarrow> nat \<Rightarrow> nat" where
  "gpos lens k = (\<Sum>j<k. 2 ^ (MAXBITS - code_len lens j))"

definition kraft :: "nat list \<Rightarrow> nat" where
  "kraft lens = gpos lens (length (symbols lens))"

lemma set_of_len: "set (of_len lens l) = {s. s < length lens \<and> lens ! s = l}"
  by (auto simp: of_len_def)

lemma set_symbols: "set (symbols lens) = {s. s < length lens \<and> 1 \<le> lens ! s \<and> lens ! s \<le> MAXBITS}"
  by (auto simp: symbols_def set_of_len)

lemma sorted_concat_of_len:
  "sorted (map (\<lambda>s. lens ! s) (concat (map (of_len lens) [a..<b])))"
proof (induction b)
  case (Suc b)
  show ?case
  proof (cases "a \<le> b")
    case True
    then have "concat (map (of_len lens) [a..<Suc b]) = concat (map (of_len lens) [a..<b]) @ of_len lens b"
      by simp
    moreover have "\<forall>x \<in> set (map (\<lambda>s. lens ! s) (concat (map (of_len lens) [a..<b]))). x \<le> b"
      by (auto simp: set_of_len)
    moreover have "sorted (map (\<lambda>s. lens ! s) (of_len lens b))"
      by (rule sorted_wrt_mono_rel [of _ "\<lambda>x y. True"]) (auto simp: set_of_len)
    ultimately show ?thesis using Suc by (auto simp: sorted_append set_of_len)
  qed simp
qed simp

lemma sorted_symbols: "sorted (map (\<lambda>s. lens ! s) (symbols lens))"
  unfolding symbols_def by (rule sorted_concat_of_len)

lemma distinct_symbols: "distinct (symbols lens)"
proof -
  have "distinct (concat (map (of_len lens) [a..<b]))" for a b
  proof (induction b)
    case (Suc b)
    then show ?case
      by (cases "a \<le> b") (auto simp: set_of_len, auto simp: of_len_def)
  qed simp
  then show ?thesis unfolding symbols_def .
qed

lemma code_len_bounds:
  assumes "k < length (symbols lens)"
  shows "1 \<le> code_len lens k" "code_len lens k \<le> MAXBITS"
  using nth_mem [OF assms] by (auto simp: code_len_def set_symbols)

lemma code_len_mono:
  assumes "j \<le> k" "k < length (symbols lens)"
  shows "code_len lens j \<le> code_len lens k"
  using sorted_nth_mono [OF sorted_symbols, of j k lens] assms by (simp add: code_len_def)

lemma gpos_0 [simp]: "gpos lens 0 = 0"
  by (simp add: gpos_def)

lemma gpos_Suc: "gpos lens (Suc k) = gpos lens k + 2 ^ (MAXBITS - code_len lens k)"
  by (simp add: gpos_def)

lemma gpos_mono: "j \<le> k \<Longrightarrow> gpos lens j \<le> gpos lens k"
  unfolding gpos_def by (rule sum_mono2) auto

lemma gpos_dvd:
  assumes "k < length (symbols lens)" "l = code_len lens k"
  shows "2 ^ (MAXBITS - l) dvd gpos lens k"
  unfolding gpos_def
proof (rule dvd_sum)
  fix j assume "j \<in> {..<k}"
  then have "code_len lens j \<le> l" using code_len_mono [of j k lens] assms by simp
  then show "2 ^ (MAXBITS - l) dvd (2 ^ (MAXBITS - code_len lens j) :: nat)"
    by (intro le_imp_power_dvd) simp
qed

text \<open>The intervals of the symbols cover all points below the total.\<close>

lemma gpos_cover:
  assumes "x < gpos lens n"
  shows "\<exists>j<n. gpos lens j \<le> x \<and> x < gpos lens (Suc j)"
  using assms
proof (induction n)
  case (Suc n)
  then show ?case by (cases "x < gpos lens n") (auto simp: less_Suc_eq not_less)
qed simp

lemma div_eq_iff_interval:
  fixes x d q :: nat
  assumes "0 < d"
  shows "x div d = q \<longleftrightarrow> d * q \<le> x \<and> x < d * Suc q"
  using div_nat_eqI [of d q x] times_div_less_eq_dividend [of d x]
    dividend_less_times_div [OF assms, of x] by auto

text \<open>The code of the \<open>k\<close>-th symbol, as its bits arrive.\<close>

definition huff_code :: "nat list \<Rightarrow> nat \<Rightarrow> nat" where
  "huff_code lens k = revb MAXBITS (gpos lens k)"

lemma window_code_iff:
  assumes "k < length (symbols lens)" "gpos lens (Suc k) \<le> 2 ^ MAXBITS" "w < 2 ^ MAXBITS"
  shows "w mod 2 ^ code_len lens k = huff_code lens k \<longleftrightarrow>
    gpos lens k \<le> revb MAXBITS w \<and> revb MAXBITS w < gpos lens (Suc k)"
proof -
  let ?l = "code_len lens k" and ?d = "2 ^ (MAXBITS - code_len lens k) :: nat"
  from gpos_dvd [OF assms(1) refl] obtain q where q: "gpos lens k = ?d * q" by blast
  have "gpos lens k < 2 ^ MAXBITS" using assms(2) zero_less_power [of "2::nat" "MAXBITS - code_len lens k"]
    unfolding gpos_Suc by linarith
  then have "w mod 2 ^ ?l = huff_code lens k \<longleftrightarrow> revb MAXBITS w div ?d = q"
    using window_prefix_iff [OF code_len_bounds(2) [OF assms(1)] gpos_dvd [OF assms(1) refl], of w]
    by (simp add: huff_code_def q)
  also have "\<dots> \<longleftrightarrow> ?d * q \<le> revb MAXBITS w \<and> revb MAXBITS w < ?d * Suc q"
    by (rule div_eq_iff_interval) simp
  finally show ?thesis by (simp add: gpos_Suc q add.commute)
qed

end
