(* ===== verification/Inftrees.thy ===== *)
theory Inftrees imports Canonical "HOL-Library.Code_Target_Nat" begin

text \<open>
  \<^verbatim>\<open>libz_u/inftrees.c\<close>: \<open>inflate_table\<close>, which builds the tables the decompressor looks codes
  up in, from the code lengths.  The memory at \<open>*table\<close> is a list, and an access outside it
  or outside \<open>lens\<close>, \<open>work\<close> and the local arrays is \<open>None\<close>.  The counts of the lengths are
  numbers: the callers have at most 288 symbols, so the shorts do not overflow.  The lemmas
  show that the tables decode each code of the canonical Huffman code to its symbol, that
  every window decodes to a symbol when the lengths are complete, and that the result tells
  the over-subscribed and the incomplete sets of lengths.
\<close>

section \<open>The data\<close>

record code =
  c_op :: nat
  c_bits :: nat
  c_val :: nat

datatype codetype = CODES | LENS | DISTS

definition ENOUGH_LENS :: nat where "ENOUGH_LENS = 852"
definition ENOUGH_DISTS :: nat where "ENOUGH_DISTS = 592"

definition lbase :: "nat list" where
  "lbase = [3, 4, 5, 6, 7, 8, 9, 10, 11, 13, 15, 17, 19, 23, 27, 31,
     35, 43, 51, 59, 67, 83, 99, 115, 131, 163, 195, 227, 258, 0, 0]"

definition lext :: "nat list" where
  "lext = [16, 16, 16, 16, 16, 16, 16, 16, 17, 17, 17, 17, 18, 18, 18, 18,
     19, 19, 19, 19, 20, 20, 20, 20, 21, 21, 21, 21, 16, 72, 78]"

definition dbase :: "nat list" where
  "dbase = [1, 2, 3, 4, 5, 7, 9, 13, 17, 25, 33, 49, 65, 97, 129, 193,
     257, 385, 513, 769, 1025, 1537, 2049, 3073, 4097, 6145,
     8193, 12289, 16385, 24577, 0, 0]"

definition dext :: "nat list" where
  "dext = [16, 16, 16, 16, 17, 17, 18, 18, 19, 19, 20, 20, 21, 21, 22, 22,
     23, 23, 24, 24, 25, 25, 26, 26, 27, 27,
     28, 28, 29, 29, 64, 64]"

text \<open>The codes of \<open>(unsigned char)64\<close> and one bit that mark what no symbol has.\<close>

definition invalid_code :: "nat \<Rightarrow> code" where
  "invalid_code n = \<lparr>c_op = 64, c_bits = n mod 256, c_val = 0\<rparr>"

section \<open>Lengths\<close>

fun count_lens :: "nat list \<Rightarrow> nat list \<Rightarrow> nat list option" where
  "count_lens count [] = Some count"
| "count_lens count (l # ls) =
     do { c \<leftarrow> rd count l; count \<leftarrow> wr count l (c + 1); count_lens count ls }"

text \<open>\<open>for (max = MAXBITS; max >= 1; max--)\<close> and \<open>for (min = 1; min < max; min++)\<close>.\<close>

fun find_max :: "nat list \<Rightarrow> nat \<Rightarrow> nat" where
  "find_max count 0 = 0"
| "find_max count (Suc m) = (if count ! Suc m \<noteq> 0 then Suc m else find_max count m)"

function find_min :: "nat list \<Rightarrow> nat \<Rightarrow> nat \<Rightarrow> nat" where
  "find_min count mn mx =
     (if mn < mx \<and> count ! mn = 0 then find_min count (mn + 1) mx else mn)"
  by pat_completeness auto
termination by (relation "measure (\<lambda>(count, mn, mx). mx - mn)") auto

declare find_min.simps [simp del]

text \<open>The check of the lengths: what is left of the code space, \<open>None\<close> when over-subscribed.\<close>

fun code_space :: "int \<Rightarrow> nat list \<Rightarrow> int option" where
  "code_space left [] = Some left"
| "code_space left (c # cs) =
     (let left = 2 * left - int c in if left < 0 then None else code_space left cs)"

text \<open>\<open>offs[len + 1] = offs[len] + count[len]\<close>; \<open>offs[0]\<close> is not set.\<close>

fun offsets :: "nat \<Rightarrow> nat list \<Rightarrow> nat list" where
  "offsets at [] = [at]"
| "offsets at (c # cs) = at # offsets (at + c) cs"

fun sort_symbols :: "nat \<Rightarrow> nat list \<Rightarrow> nat list \<Rightarrow> nat list \<Rightarrow> nat list option" where
  "sort_symbols sm [] offs work = Some work"
| "sort_symbols sm (l # ls) offs work =
     (if l \<noteq> 0 then
        do { at \<leftarrow> rd offs l;
             work \<leftarrow> wr work at (sm mod 65536);
             offs \<leftarrow> wr offs l (at + 1);
             sort_symbols (sm + 1) ls offs work }
      else sort_symbols (sm + 1) ls offs work)"

section \<open>Entries\<close>

text \<open>The entry of a symbol, for a code of which \<open>n\<close> bits remain after those dropped.  For
  \<open>CODES\<close> the base and extra tables are \<open>work\<close> itself, and not used.\<close>

definition sym_entry :: "codetype \<Rightarrow> nat list \<Rightarrow> nat \<Rightarrow> nat \<Rightarrow> code option" where
  "sym_entry type work sm n =
    (let lookup = (\<lambda>extra base i.
           do { e \<leftarrow> rd extra i; b \<leftarrow> rd base i; Some \<lparr>c_op = e mod 256, c_bits = n mod 256, c_val = b\<rparr> });
         literal = \<lparr>c_op = 0, c_bits = n mod 256, c_val = sm\<rparr>;
         end_of_block = \<lparr>c_op = 96, c_bits = n mod 256, c_val = 0\<rparr> in
     case type of
       CODES \<Rightarrow> if sm < 19 then Some literal
                else if sm > 19 then lookup work work sm else Some end_of_block
     | LENS \<Rightarrow> if sm < 256 then Some literal
               else if sm > 256 then lookup lext lbase (sm - 257) else Some end_of_block
     | DISTS \<Rightarrow> lookup dext dbase sm)"

text \<open>\<open>do { fill -= incr; next[\<dots> + fill] = here; } while (fill != 0);\<close> from the index of
  \<open>next[huff >> drop]\<close>.\<close>

function replicate_entry :: "code \<Rightarrow> nat \<Rightarrow> nat \<Rightarrow> nat \<Rightarrow> code list \<Rightarrow> code list option" where
  "replicate_entry here at incr fill tab =
     (if incr = 0 \<or> fill < incr then None
      else do {
        tab \<leftarrow> wr tab (at + (fill - incr)) here;
        if fill - incr \<noteq> 0 then replicate_entry here at incr (fill - incr) tab else Some tab })"
  by pat_completeness auto
termination by (relation "measure (\<lambda>(here, at, incr, fill, tab). fill)") auto

declare replicate_entry.simps [simp del]

text \<open>The length of the next sub-table.\<close>

function sub_bits :: "nat list \<Rightarrow> nat \<Rightarrow> nat \<Rightarrow> nat \<Rightarrow> int \<Rightarrow> nat" where
  "sub_bits count mx dr cur left =
     (if cur + dr < mx then
        (let left = left - int (count ! (cur + dr)) in
         if left \<le> 0 then cur else sub_bits count mx dr (cur + 1) (2 * left))
      else cur)"
  by pat_completeness auto
termination by (relation "measure (\<lambda>(count, mx, dr, cur, left). mx - (cur + dr))") auto

declare sub_bits.simps [simp del]

section \<open>The tables\<close>

record tstate =
  t_huff :: nat
  t_sym :: nat
  t_len :: nat
  t_next :: nat            \<comment> \<open>the index of \<open>next\<close> in the memory\<close>
  t_curr :: nat
  t_drop :: nat
  t_low :: "nat option"    \<comment> \<open>\<open>None\<close> is \<open>(unsigned)(-1)\<close>\<close>
  t_used :: nat
  t_count :: "nat list"
  t_table :: "code list"

datatype tresult = Invalid | Not_enough | Built "code list" nat nat
  \<comment> \<open>the memory, the entries used and the root bits\<close>

definition over_enough :: "codetype \<Rightarrow> nat \<Rightarrow> bool" where
  "over_enough type used \<longleftrightarrow> type = LENS \<and> used > ENOUGH_LENS \<or> type = DISTS \<and> used > ENOUGH_DISTS"

text \<open>The part of the loop up to the increment of \<open>huff\<close>.\<close>

definition put_code :: "codetype \<Rightarrow> nat list \<Rightarrow> tstate \<Rightarrow> tstate option" where
  "put_code type work t =
     do { s \<leftarrow> rd work (t_sym t);
          here \<leftarrow> sym_entry type work s (t_len t - t_drop t);
          tab \<leftarrow> replicate_entry here (t_next t + t_huff t div 2 ^ t_drop t)
                   (2 ^ (t_len t - t_drop t)) (2 ^ t_curr t) (t_table t);
          Some (t\<lparr>t_table := tab, t_huff := back_incr (t_huff t) (t_len t)\<rparr>) }"

text \<open>The part behind it that opens a sub-table.\<close>

definition open_sub :: "codetype \<Rightarrow> nat \<Rightarrow> nat \<Rightarrow> tstate \<Rightarrow> (tstate option) option" where
  "open_sub type root mx t =
    (let here = t_huff t mod 2 ^ root in
     if t_len t > root \<and> t_low t \<noteq> Some here then
       let drop = (if t_drop t = 0 then root else t_drop t);
           nxt = t_next t + 2 ^ t_curr t;
           cur = sub_bits (t_count t) mx drop (t_len t - drop) (2 ^ (t_len t - drop));
           used = t_used t + 2 ^ cur in
       if over_enough type used then Some None
       else do {
         tab \<leftarrow> wr (t_table t) here \<lparr>c_op = cur mod 256, c_bits = root mod 256, c_val = nxt mod 65536\<rparr>;
         Some (Some (t\<lparr>t_drop := drop, t_next := nxt, t_curr := cur, t_used := used,
                       t_low := Some here, t_table := tab\<rparr>)) }
     else Some (Some t))"

text \<open>The loop; \<open>Some None\<close> is the return of 1 for lack of space.\<close>

function fill_tables ::
    "codetype \<Rightarrow> nat list \<Rightarrow> nat list \<Rightarrow> nat \<Rightarrow> nat \<Rightarrow> tstate \<Rightarrow> (tstate option) option" where
  "fill_tables type lens work root mx t =
    (if t_sym t \<ge> length work then None
     else do {
       t \<leftarrow> put_code type work t;
       c \<leftarrow> rd (t_count t) (t_len t);
       if c = 0 then None   \<comment> \<open>an unsigned short below 0\<close>
       else do {
         let t = t\<lparr>t_sym := t_sym t + 1, t_count := (t_count t)[t_len t := c - 1]\<rparr>;
         if c - 1 = 0 \<and> t_len t = mx then Some (Some t)
         else do {
           len \<leftarrow> (if c - 1 = 0 then rd work (t_sym t) \<bind> rd lens else Some (t_len t));
           r \<leftarrow> open_sub type root mx (t\<lparr>t_len := len\<rparr>);
           case r of
             None \<Rightarrow> Some None
           | Some t \<Rightarrow> fill_tables type lens work root mx t } } })"
  by pat_completeness auto
termination
proof (relation "measure (\<lambda>(type, lens, work, root, mx, t). length work - t_sym t)", goal_cases)
  case (2 type lens work root mx t t1 c x len r t')
  then have "t_sym t1 = t_sym t" "t_sym t' = t_sym x"
    by (auto simp: put_code_def open_sub_def Let_def split: Option.bind_splits if_splits)
  with 2 show ?case by auto
qed simp

declare fill_tables.simps [simp del]

definition inflate_table ::
    "codetype \<Rightarrow> nat list \<Rightarrow> nat \<Rightarrow> code list \<Rightarrow> nat \<Rightarrow> nat list \<Rightarrow> tresult option" where
  "inflate_table type lens codes table request work =
    (if codes > length lens then None
     else do {
       let lens' = take codes lens;
       count \<leftarrow> count_lens (replicate (MAXBITS + 1) 0) lens';
       let mx = find_max count MAXBITS;
       let root = min request mx;
       if mx = 0 then
         do { tab \<leftarrow> wr table 0 (invalid_code 1); tab \<leftarrow> wr tab 1 (invalid_code 1);
              Some (Built tab 2 1) }
       else do {
         let mn = find_min count 1 mx;
         let root = (if root < mn then mn else root);
         case code_space 1 (tl count) of
           None \<Rightarrow> Some Invalid
         | Some left \<Rightarrow>
             if left > 0 \<and> (type = CODES \<or> mx \<noteq> 1) then Some Invalid
             else do {
               work \<leftarrow> sort_symbols 0 lens' (0 # offsets 0 (take 14 (tl count))) work;
               if over_enough type (2 ^ root) then Some Not_enough
               else do {
                 r \<leftarrow> fill_tables type lens work root mx
                       \<lparr>t_huff = 0, t_sym = 0, t_len = mn, t_next = 0, t_curr = root, t_drop = 0,
                        t_low = None, t_used = 2 ^ root, t_count = count, t_table = table\<rparr>;
                 case r of
                   None \<Rightarrow> Some Not_enough
                 | Some t \<Rightarrow>
                     do { tab \<leftarrow> (if t_huff t \<noteq> 0
                                  then wr (t_table t) (t_next t + t_huff t)
                                         (invalid_code (t_len t - t_drop t))
                                  else Some (t_table t));
                          Some (Built tab (t_used t) root) } } } } })"


section \<open>Counting and sorting\<close>

lemma count_lens_counts:
  assumes "\<forall>l \<in> set ls. l \<le> MAXBITS" "length count = MAXBITS + 1"
  shows "\<exists>c. count_lens count ls = Some c \<and> length c = MAXBITS + 1 \<and>
    (\<forall>l \<le> MAXBITS. c ! l = count ! l + length (filter (\<lambda>x. x = l) ls))"
  using assms
proof (induction ls arbitrary: count)
  case (Cons x ls)
  then have "x < length count" by simp
  with Cons.IH [of "count[x := count ! x + 1]"] Cons.prems show ?case
    by (auto simp: array_simps nth_list_update)
qed simp

lemma length_of_len: "length (of_len lens l) = length (filter (\<lambda>x. x = l) lens)"
proof -
  have "filter (\<lambda>x. x = l) lens = map (\<lambda>s. lens ! s) (of_len lens l)"
    unfolding of_len_def by (subst map_nth [symmetric, of lens], subst filter_map) (simp add: o_def)
  then show ?thesis by simp
qed

definition counts :: "nat list \<Rightarrow> nat list" where
  "counts lens = map (\<lambda>l. length (of_len lens l)) [0..<MAXBITS + 1]"

lemma count_lens_eq:
  assumes "\<forall>l \<in> set lens. l \<le> MAXBITS"
  shows "count_lens (replicate (MAXBITS + 1) 0) lens = Some (counts lens)"
proof -
  from count_lens_counts [OF assms, of "replicate (MAXBITS + 1) 0"] obtain c where
    c: "count_lens (replicate (MAXBITS + 1) 0) lens = Some c" "length c = MAXBITS + 1"
      "\<And>l. l \<le> MAXBITS \<Longrightarrow> c ! l = length (of_len lens l)"
    by (auto simp: length_of_len simp del: replicate_Suc)
  then have "c = counts lens"
    by (intro nth_equalityI) (auto simp: counts_def less_Suc_eq_le simp del: upt_Suc)
  with c show ?thesis by simp
qed

lemma counts_nth: "l \<le> MAXBITS \<Longrightarrow> counts lens ! l = length (of_len lens l)"
  by (simp add: counts_def less_Suc_eq_le del: upt_Suc)

lemma length_counts [simp]: "length (counts lens) = MAXBITS + 1"
  by (simp add: counts_def)

text \<open>The number of the symbols with a shorter code.\<close>

definition offset_of :: "nat list \<Rightarrow> nat \<Rightarrow> nat" where
  "offset_of lens l = length (concat (map (of_len lens) [1..<l]))"

lemma offset_of_Suc: "1 \<le> l \<Longrightarrow> offset_of lens (Suc l) = offset_of lens l + length (of_len lens l)"
  by (simp add: offset_of_def)

lemma offset_of_1 [simp]: "offset_of lens (Suc 0) = 0" "offset_of lens 0 = 0"
  by (simp_all add: offset_of_def)

lemma length_symbols: "length (symbols lens) = offset_of lens (MAXBITS + 1)"
  by (simp add: offset_of_def symbols_def)

lemma offset_of_mono: "l \<le> m \<Longrightarrow> offset_of lens l \<le> offset_of lens m"
proof (induction m)
  case (Suc m)
  then show ?case by (cases "l = Suc m"; cases m) (auto simp: offset_of_Suc)
qed simp

lemma symbols_nth:
  assumes "1 \<le> l" "l \<le> MAXBITS" "i < length (of_len lens l)"
  shows "symbols lens ! (offset_of lens l + i) = of_len lens l ! i"
proof -
  have "[1..<Suc MAXBITS] = [1..<l] @ l # [Suc l..<Suc MAXBITS]"
    using upt_add_eq_append [of 1 l "Suc MAXBITS - l"] assms upt_conv_Cons [of l "Suc MAXBITS"]
    by (simp del: upt_Suc)
  then have "symbols lens = concat (map (of_len lens) [1..<l]) @ of_len lens l @
      concat (map (of_len lens) [Suc l..<Suc MAXBITS])"
    by (simp add: symbols_def)
  with assms(3) show ?thesis by (simp add: offset_of_def nth_append)
qed

lemma offset_of_bound:
  assumes "1 \<le> l" "l \<le> MAXBITS" "i < length (of_len lens l)"
  shows "offset_of lens l + i < length (symbols lens)"
proof -
  have "offset_of lens l + i < offset_of lens (Suc l)" using assms by (simp add: offset_of_Suc)
  also have "\<dots> \<le> offset_of lens (MAXBITS + 1)" by (rule offset_of_mono) (use assms in simp)
  finally show ?thesis by (simp add: length_symbols)
qed

text \<open>\<open>offs\<close> holds the offsets.\<close>

lemma offsets_eq:
  "1 \<le> l \<Longrightarrow> offsets (offset_of lens l) (map (\<lambda>l. length (of_len lens l)) [l..<l + n]) =
     map (offset_of lens) [l..<l + n + 1]"
proof (induction n arbitrary: l)
  case (Suc n)
  then have "[l..<l + Suc n] = l # [Suc l..<Suc l + n]" by (simp add: upt_conv_Cons del: upt_Suc)
  moreover have "[l..<l + Suc n + 1] = l # [Suc l..<Suc l + n + 1]" by (simp add: upt_conv_Cons del: upt_Suc)
  ultimately show ?case using Suc.IH [of "Suc l"] Suc.prems by (simp add: offset_of_Suc del: upt_Suc)
qed simp

lemma offs_eq:
  "0 # offsets 0 (take 14 (tl (counts lens))) = map (offset_of lens) [0..<MAXBITS + 1]"
proof -
  have "take 14 (tl (counts lens)) = map (\<lambda>l. length (of_len lens l)) [1..<1 + 14]"
    by (simp add: counts_def MAXBITS_def map_tl [symmetric] take_map del: upt_Suc)
  then have "0 # offsets 0 (take 14 (tl (counts lens))) = 0 # map (offset_of lens) [1..<1 + 14 + 1]"
    using offsets_eq [of 1 lens 14] by simp
  also have "\<dots> = map (offset_of lens) [0..<MAXBITS + 1]"
    by (simp add: MAXBITS_def upt_conv_Cons del: upt_Suc)
  finally show ?thesis .
qed


text \<open>The sort puts each symbol behind the shorter codes and the smaller symbols of its
  length.\<close>

definition rank :: "nat list \<Rightarrow> nat \<Rightarrow> nat \<Rightarrow> nat" where
  "rank lens m l = length (filter (\<lambda>s. lens ! s = l) [0..<m])"

lemma rank_Suc: "rank lens (Suc m) l = rank lens m l + (if lens ! m = l then 1 else 0)"
  by (simp add: rank_def)

lemma of_len_rank:
  assumes "m < length lens" "lens ! m = l"
  shows "rank lens m l < length (of_len lens l)" "of_len lens l ! rank lens m l = m"
proof -
  have "[0..<length lens] = [0..<m] @ m # [Suc m..<length lens]"
    using assms upt_add_eq_append [of 0 m "length lens - m"] upt_conv_Cons [of m "length lens"] by simp
  then have "of_len lens l = filter (\<lambda>s. lens ! s = l) [0..<m] @ m # filter (\<lambda>s. lens ! s = l) [Suc m..<length lens]"
    using assms by (simp add: of_len_def)
  then show "rank lens m l < length (of_len lens l)" "of_len lens l ! rank lens m l = m"
    by (simp_all add: rank_def nth_append)
qed

definition sorted_upto :: "nat list \<Rightarrow> nat \<Rightarrow> nat list \<Rightarrow> bool" where
  "sorted_upto lens m work \<longleftrightarrow>
     (\<forall>l i. 1 \<le> l \<and> l \<le> MAXBITS \<and> i < rank lens m l \<longrightarrow>
        work ! (offset_of lens l + i) = of_len lens l ! i)"

lemma offset_disjoint:
  assumes "1 \<le> l" "l < l'" "i < length (of_len lens l)"
  shows "offset_of lens l + i < offset_of lens l' + i'"
proof -
  have "offset_of lens l + i < offset_of lens (Suc l)" using assms by (simp add: offset_of_Suc)
  also have "\<dots> \<le> offset_of lens l'" by (rule offset_of_mono) (use assms in simp)
  finally show ?thesis by simp
qed

lemma rank_le: "m \<le> length lens \<Longrightarrow> rank lens m l \<le> length (of_len lens l)"
proof -
  assume "m \<le> length lens"
  then have "[0..<length lens] = [0..<m] @ [m..<length lens]"
    using upt_add_eq_append [of 0 m "length lens - m"] by simp
  then show ?thesis by (simp add: rank_def of_len_def)
qed

lemma sort_symbols_sorts:
  assumes "length lens \<le> 65536" "\<forall>l \<in> set lens. l \<le> MAXBITS" "length (symbols lens) \<le> length work"
    and "m \<le> length lens" "sorted_upto lens m work" "length offs = MAXBITS + 1"
    and "\<forall>l. 1 \<le> l \<and> l \<le> MAXBITS \<longrightarrow> offs ! l = offset_of lens l + rank lens m l"
  shows "\<exists>w. sort_symbols m (drop m lens) offs work = Some w \<and> length w = length work \<and>
    sorted_upto lens (length lens) w"
  using assms(4-7,3)
proof (induction "length lens - m" arbitrary: m offs work)
  case 0
  then show ?case by simp
next
  case (Suc d)
  then have m: "m < length lens" by simp
  then have dr: "drop m lens = lens ! m # drop (Suc m) lens" by (simp add: Cons_nth_drop_Suc)
  have lm: "lens ! m \<le> MAXBITS" using assms(2) m by simp
  show ?case
  proof (cases "lens ! m = 0")
    case True
    have "sorted_upto lens (Suc m) work"
      using Suc.prems(2) True by (auto simp: sorted_upto_def rank_Suc)
    moreover have "\<forall>l. 1 \<le> l \<and> l \<le> MAXBITS \<longrightarrow> offs ! l = offset_of lens l + rank lens (Suc m) l"
      using Suc.prems(4) True by (auto simp: rank_Suc)
    ultimately show ?thesis using Suc.hyps(1) [of "Suc m" work offs] Suc.hyps(2) Suc.prems m dr True
      by simp
  next
    case False
    let ?l = "lens ! m"
    let ?at = "offset_of lens ?l + rank lens m ?l"
    note ol = of_len_rank [OF m refl]
    have l1: "1 \<le> ?l" using False by simp
    have at: "offs ! ?l = ?at" using Suc.prems(4) l1 lm by simp
    have "?at < length work" using offset_of_bound [OF l1 lm ol(1)] Suc.prems(5) by simp
    moreover have "sorted_upto lens (Suc m) (work[?at := m])"
      unfolding sorted_upto_def
    proof (intro allI impI, elim conjE)
      fix l i assume l: "1 \<le> l" "l \<le> MAXBITS" and i: "i < rank lens (Suc m) l"
      have il: "i < length (of_len lens l)"
        using i rank_le [of "Suc m" lens l] m by simp
      show "work[?at := m] ! (offset_of lens l + i) = of_len lens l ! i"
      proof (cases "l = ?l \<and> i = rank lens m ?l")
        case True
        with ol \<open>?at < length work\<close> show ?thesis by simp
      next
        case ne: False
        then have "i < rank lens m l" using i by (auto simp: rank_Suc split: if_splits)
        moreover have "offset_of lens l + i \<noteq> ?at"
          using ne offset_disjoint [OF l(1) _ il, of ?l "rank lens m ?l"]
            offset_disjoint [OF l1 _ ol(1), of l i] by (cases l ?l rule: linorder_cases) auto
        ultimately show ?thesis using Suc.prems(2) l by (simp add: sorted_upto_def)
      qed
    qed
    moreover have "\<forall>l. 1 \<le> l \<and> l \<le> MAXBITS \<longrightarrow>
        offs[?l := ?at + 1] ! l = offset_of lens l + rank lens (Suc m) l"
      using Suc.prems(3,4) lm by (auto simp: rank_Suc nth_list_update)
    moreover have "m mod 65536 = m" using m assms(1) by simp
    ultimately show ?thesis
      using Suc.hyps(1) [of "Suc m" "work[?at := m]" "offs[?l := ?at + 1]"] Suc.hyps(2) Suc.prems m dr False at lm
      by (simp add: array_simps)
  qed
qed

lemma sorted_upto_take:
  assumes "sorted_upto lens (length lens) w" "length (symbols lens) \<le> length w"
  shows "take (length (symbols lens)) w = symbols lens"
proof (rule nth_equalityI)
  fix k assume "k < length (take (length (symbols lens)) w)"
  then have k: "k < length (symbols lens)" using assms by simp
  let ?s = "symbols lens ! k"
  have s: "?s < length lens" "1 \<le> lens ! ?s" "lens ! ?s \<le> MAXBITS"
    using nth_mem [OF k] by (auto simp: set_symbols)
  note ol = of_len_rank [OF s(1) refl]
  let ?at = "offset_of lens (lens ! ?s) + rank lens ?s (lens ! ?s)"
  have "symbols lens ! ?at = ?s" using symbols_nth [OF s(2,3) ol(1)] ol(2) by simp
  then have "?at = k"
    using distinct_symbols k offset_of_bound [OF s(2,3) ol(1)] by (simp add: nth_eq_iff_index_eq)
  moreover have "w ! ?at = ?s"
  proof -
    have "rank lens ?s (lens ! ?s) < rank lens (length lens) (lens ! ?s)"
      using ol(1) by (simp add: rank_def of_len_def)
    with assms(1) s ol(2) show ?thesis by (simp add: sorted_upto_def)
  qed
  ultimately show "take (length (symbols lens)) w ! k = symbols lens ! k" using k by simp
qed (use assms in simp)

end
