(* ===== verification/Inftables.thy ===== *)
theory Inftables imports Inftrees begin

text \<open>
  The correctness of \<open>inflate_table\<close>: the invariant of its loop, that it stays within its
  arrays, and that looking a window of the input up in the tables gives the symbol whose
  code it starts with.
\<close>

section \<open>Looking a code up\<close>

text \<open>As the decompressor does: a root entry whose operation is below 16 and not 0 points to a
  sub-table.  The result is the operation, the value and the length of the code.\<close>

definition is_link :: "code \<Rightarrow> bool" where
  "is_link e \<longleftrightarrow> c_op e \<noteq> 0 \<and> c_op e < 16"

definition lookup :: "code list \<Rightarrow> nat \<Rightarrow> nat \<Rightarrow> nat \<times> nat \<times> nat" where
  "lookup tab root w =
    (let e = tab ! (w mod 2 ^ root) in
     if is_link e then
       let e' = tab ! (c_val e + w div 2 ^ c_bits e mod 2 ^ c_op e) in
       (c_op e', c_val e', c_bits e + c_bits e')
     else (c_op e, c_val e, c_bits e))"

section \<open>Steps of the loop\<close>

lemma replicate_entry_fills:
  assumes "a \<le> b" "at + (2 ^ b - 2 ^ a) < length tab" "2 ^ a dvd f" "0 < f" "f \<le> 2 ^ b"
  shows "\<exists>tab'. replicate_entry here at (2 ^ a) f tab = Some tab' \<and> length tab' = length tab \<and>
    (\<forall>x. tab' ! x = (if at \<le> x \<and> x < at + f \<and> 2 ^ a dvd x - at then here else tab ! x))"
  using assms(2-)
proof (induction f arbitrary: tab rule: less_induct)
  case (less f)
  then obtain q where q: "f = 2 ^ a * q" "q \<noteq> 0" by auto
  then have le: "2 ^ a \<le> f" by simp
  have fb: "f - 2 ^ a \<le> 2 ^ b - 2 ^ a" using less.prems(4) by simp
  let ?t = "tab[at + (f - 2 ^ a) := here]"
  have wr: "wr tab (at + (f - 2 ^ a)) here = Some ?t"
    using fb less.prems(1) by (intro wr_in) linarith
  have nth: "?t ! x = (if x = at + (f - 2 ^ a) then here else tab ! x)" for x
    using fb less.prems(1) by (auto simp: nth_list_update)
  show ?case
  proof (cases "f = 2 ^ a")
    case True
    have "(at \<le> x \<and> x < at + f \<and> 2 ^ a dvd x - at) \<longleftrightarrow> x = at" for x
    proof (cases "at < x \<and> x < at + f")
      case True
      then have "0 < x - at" "x - at < 2 ^ a" using \<open>f = 2 ^ a\<close> by linarith+
      then have "\<not> 2 ^ a dvd x - at" by (rule nat_dvd_not_less)
      with True show ?thesis by simp
    next
      case False
      then show ?thesis using \<open>0 < f\<close> by auto
    qed
    with True wr nth show ?thesis by (subst replicate_entry.simps) auto
  next
    case False
    have "f - 2 ^ a < f" "2 ^ a dvd f - 2 ^ a" "0 < f - 2 ^ a" "f - 2 ^ a \<le> 2 ^ b"
      using False le less.prems by (auto simp: le_eq_less_or_eq)
    from less.IH [OF this(1) _ this(2-4), of ?t] less.prems(1) obtain tab' where
      t: "replicate_entry here at (2 ^ a) (f - 2 ^ a) ?t = Some tab'" "length tab' = length tab"
        "\<And>x. tab' ! x = (if at \<le> x \<and> x < at + (f - 2 ^ a) \<and> 2 ^ a dvd x - at then here else ?t ! x)"
      by auto
    have "(at \<le> x \<and> x < at + f \<and> 2 ^ a dvd x - at) \<longleftrightarrow>
        (at \<le> x \<and> x < at + (f - 2 ^ a) \<and> 2 ^ a dvd x - at) \<or> x = at + (f - 2 ^ a)" for x
    proof -
      have "x - at = f - 2 ^ a" if "f - 2 ^ a \<le> x - at" "x - at < f" "2 ^ a dvd x - at"
      proof -
        from that(3) obtain p where p: "x - at = 2 ^ a * p" by blast
        with that(2) q have "p < q" by simp
        moreover from that(1) p q have "q - 1 \<le> p"
          by (metis (no_types) diff_mult_distrib2 mult.right_neutral mult_le_cancel1 zero_less_numeral zero_less_power)
        ultimately show ?thesis using p q by (metis One_nat_def Suc_pred diff_mult_distrib2 less_Suc_eq_le le_antisym mult.right_neutral neq0_conv)
      qed
      note key = this
      have pos: "0 < (2::nat) ^ a" by simp
      show ?thesis
      proof
        assume x: "at \<le> x \<and> x < at + f \<and> 2 ^ a dvd x - at"
        show "(at \<le> x \<and> x < at + (f - 2 ^ a) \<and> 2 ^ a dvd x - at) \<or> x = at + (f - 2 ^ a)"
        proof (cases "x < at + (f - 2 ^ a)")
          case True
          with x show ?thesis by simp
        next
          case False
          with x have "f - 2 ^ a \<le> x - at" "x - at < f" by linarith+
          from key [OF this] x show ?thesis by linarith
        qed
      next
        assume "(at \<le> x \<and> x < at + (f - 2 ^ a) \<and> 2 ^ a dvd x - at) \<or> x = at + (f - 2 ^ a)"
        then consider (a) "at \<le> x" "x < at + (f - 2 ^ a)" "2 ^ a dvd x - at" | (b) "x = at + (f - 2 ^ a)"
          by blast
        then show "at \<le> x \<and> x < at + f \<and> 2 ^ a dvd x - at"
        proof cases
          case a
          moreover from a have "x < at + f" by linarith
          ultimately show ?thesis by blast
        next
          case b
          then have "at \<le> x" "x < at + f" "x - at = f - 2 ^ a" using le pos by linarith+
          moreover have "2 ^ a dvd f - 2 ^ a" using less.prems(2) by simp
          ultimately show ?thesis by simp
        qed
      qed
    qed
    with t wr nth False le show ?thesis by (subst replicate_entry.simps) auto
  qed
qed


text \<open>The number of codes of length \<open>l\<close> from the \<open>k\<close>-th on.\<close>

definition n_left :: "nat list \<Rightarrow> nat \<Rightarrow> nat \<Rightarrow> nat" where
  "n_left lens k l = length (filter (\<lambda>j. code_len lens j = l) [k..<length (symbols lens)])"

lemma n_left_0: "1 \<le> l \<Longrightarrow> l \<le> MAXBITS \<Longrightarrow> n_left lens 0 l = length (of_len lens l)"
proof -
  assume l: "1 \<le> l" "l \<le> MAXBITS"
  have "filter (\<lambda>s. lens ! s = l) (symbols lens) = concat (map (\<lambda>m. filter (\<lambda>s. lens ! s = l) (of_len lens m)) [1..<Suc MAXBITS])"
    by (simp add: symbols_def filter_concat o_def del: upt_Suc)
  also have "\<dots> = concat (map (\<lambda>m. if m = l then of_len lens l else []) [1..<Suc MAXBITS])"
    by (rule arg_cong [where f = concat], rule map_cong) (auto simp: of_len_def filter_empty_conv intro: filter_cong)
  also have "\<dots> = of_len lens l"
  proof -
    have "[1..<Suc MAXBITS] = [1..<l] @ l # [Suc l..<Suc MAXBITS]"
      using upt_add_eq_append [of 1 l "Suc MAXBITS - l"] l upt_conv_Cons [of l "Suc MAXBITS"]
      by (simp del: upt_Suc)
    moreover have e: "l \<notin> set xs \<Longrightarrow> concat (map (\<lambda>m. if m = l then of_len lens l else []) xs) = []" for xs
      by (induction xs) auto
    ultimately show ?thesis by (simp add: e del: upt_Suc)
  qed
  finally have "filter (\<lambda>s. lens ! s = l) (symbols lens) = of_len lens l" .
  moreover have "filter (\<lambda>s. lens ! s = l) (symbols lens) =
      map (\<lambda>j. symbols lens ! j) (filter (\<lambda>j. code_len lens j = l) [0..<length (symbols lens)])"
    by (subst map_nth [symmetric, of "symbols lens"], subst filter_map) (simp add: o_def code_len_def)
  ultimately show ?thesis by (simp add: n_left_def) (metis length_map)
qed

lemma n_left_Suc:
  assumes "k < length (symbols lens)"
  shows "n_left lens k l = n_left lens (Suc k) l + (if code_len lens k = l then 1 else 0)"
  using assms by (simp add: n_left_def upt_conv_Cons)

text \<open>The look-ahead.  When it stops before the longest length, the codes up to the length it
  stopped at fill the sub-table.\<close>

definition span :: "nat list \<Rightarrow> nat \<Rightarrow> nat \<Rightarrow> nat" where
  "span lens k m = (\<Sum>j \<in> {j. k \<le> j \<and> j < length (symbols lens) \<and> code_len lens j \<le> m}.
     2 ^ (m - code_len lens j))"

lemma span_Suc: "span lens k (Suc m) = 2 * span lens k m + n_left lens k (Suc m)"
proof -
  let ?A = "{j. k \<le> j \<and> j < length (symbols lens) \<and> code_len lens j \<le> m}"
  let ?B = "{j. k \<le> j \<and> j < length (symbols lens) \<and> code_len lens j = Suc m}"
  have "{j. k \<le> j \<and> j < length (symbols lens) \<and> code_len lens j \<le> Suc m} = ?A \<union> ?B" by auto
  then have "span lens k (Suc m) = (\<Sum>j\<in>?A. 2 ^ (Suc m - code_len lens j)) + (\<Sum>j\<in>?B. 2 ^ (Suc m - code_len lens j))"
    unfolding span_def by (simp add: sum.union_disjoint disjoint_iff)
  also have "(\<Sum>j\<in>?A. 2 ^ (Suc m - code_len lens j)) = 2 * span lens k m"
    unfolding span_def sum_distrib_left by (rule sum.cong) (auto simp: Suc_diff_le)
  also have "(\<Sum>j\<in>?B. 2 ^ (Suc m - code_len lens j)) = card ?B" by simp
  also have "card ?B = n_left lens k (Suc m)"
  proof -
    have "?B = set (filter (\<lambda>j. code_len lens j = Suc m) [k..<length (symbols lens)])" by auto
    then show ?thesis unfolding n_left_def by (simp only: distinct_card distinct_filter distinct_upt)
  qed
  finally show ?thesis .
qed

lemma sub_bits_spec:
  assumes "\<And>l. 1 \<le> l \<Longrightarrow> l \<le> MAXBITS \<Longrightarrow> count ! l = n_left lens k l"
    and "1 \<le> dr" "dr + cur \<le> mx" "mx \<le> MAXBITS" "1 \<le> cur"
    and "left = 2 ^ cur - 2 * int (span lens k (dr + cur - 1))" "left > 0"
  shows "\<exists>c. sub_bits count mx dr cur left = c \<and> cur \<le> c \<and> dr + c \<le> mx \<and>
    (dr + c = mx \<or> 2 ^ c \<le> span lens k (dr + c))"
  using assms
proof (induction "mx - (dr + cur)" arbitrary: cur left)
  case 0
  then show ?case by (subst sub_bits.simps) auto
next
  case (Suc d)
  then have lt: "cur + dr < mx" by simp
  have c: "count ! (cur + dr) = n_left lens k (Suc (dr + cur - 1))"
    using Suc.prems(1) [of "cur + dr"] Suc.prems lt by (simp add: add.commute)
  have left: "left - int (count ! (cur + dr)) = 2 ^ cur - int (span lens k (dr + cur))"
    using span_Suc [of lens k "dr + cur - 1"] Suc.prems(2,6) c by simp
  show ?case
  proof (cases "left - int (count ! (cur + dr)) \<le> 0")
    case True
    then have "int (2 ^ cur) \<le> int (span lens k (dr + cur))" unfolding left by simp
    then have "2 ^ cur \<le> span lens k (dr + cur)" by (simp only: of_nat_le_iff)
    moreover have "sub_bits count mx dr cur left = cur"
      using True lt by (subst sub_bits.simps) (simp only: if_True Let_def)
    ultimately show ?thesis using lt by (intro exI [of _ cur]) (simp add: add.commute)
  next
    case False
    let ?left = "2 * (left - int (count ! (cur + dr)))"
    have l: "?left = 2 ^ (cur + 1) - 2 * int (span lens k (dr + (cur + 1) - 1))"
      unfolding left by simp
    have "d = mx - (dr + (cur + 1))" "dr + (cur + 1) \<le> mx" "1 \<le> cur + 1"
      using Suc.hyps(2) lt by linarith+
    moreover have "0 < ?left" using False by simp
    moreover note t = calculation
    from Suc.hyps(1) [OF t(1) Suc.prems(1,2) t(2) Suc.prems(4) t(3) l t(4)] obtain c where
      c: "sub_bits count mx dr (cur + 1) ?left = c" "cur + 1 \<le> c" "dr + c \<le> mx"
        "dr + c = mx \<or> 2 ^ c \<le> span lens k (dr + c)"
      by blast
    moreover have "sub_bits count mx dr cur left = sub_bits count mx dr (cur + 1) ?left"
      using False lt by (subst sub_bits.simps) (simp only: if_True if_False Let_def)
    ultimately show ?thesis by (intro exI [of _ c]) simp
  qed
qed


section \<open>Entries of symbols\<close>

text \<open>The operation and the value of a symbol.\<close>

fun sym_value :: "codetype \<Rightarrow> nat \<Rightarrow> nat \<times> nat" where
  "sym_value CODES s = (0, s)"
| "sym_value LENS s =
     (if s < 256 then (0, s) else if s = 256 then (96, 0) else (lext ! (s - 257), lbase ! (s - 257)))"
| "sym_value DISTS s = (dext ! s, dbase ! s)"

fun max_symbols :: "codetype \<Rightarrow> nat" where
  "max_symbols CODES = 19"
| "max_symbols LENS = 288"
| "max_symbols DISTS = 32"

lemma ext_bounds:
  "i < 31 \<Longrightarrow> 16 \<le> lext ! i \<and> lext ! i < 256" "i < 32 \<Longrightarrow> 16 \<le> dext ! i \<and> dext ! i < 256"
proof -
  have "\<forall>e \<in> set lext. 16 \<le> e \<and> e < 256" "\<forall>e \<in> set dext. 16 \<le> e \<and> e < 256"
    "length lext = 31" "length dext = 32" by (simp_all add: lext_def dext_def)
  then show "i < 31 \<Longrightarrow> 16 \<le> lext ! i \<and> lext ! i < 256" "i < 32 \<Longrightarrow> 16 \<le> dext ! i \<and> dext ! i < 256"
    by auto
qed

lemma sym_entry_value:
  assumes "s < max_symbols type"
  shows "sym_entry type work s n =
    Some \<lparr>c_op = fst (sym_value type s), c_bits = n mod 256, c_val = snd (sym_value type s)\<rparr>"
proof -
  have len: "length lext = 31" "length lbase = 31" "length dext = 32" "length dbase = 32"
    by (simp_all add: lext_def lbase_def dext_def dbase_def)
  show ?thesis
    using assms ext_bounds len by (cases type) (auto simp: sym_entry_def Let_def array_simps)
qed

lemma sym_value_no_link: "s < max_symbols type \<Longrightarrow> fst (sym_value type s) = 0 \<or> 16 \<le> fst (sym_value type s)"
  using ext_bounds by (cases type) auto

definition symbol_entry :: "codetype \<Rightarrow> nat list \<Rightarrow> nat \<Rightarrow> nat \<Rightarrow> code" where
  "symbol_entry type lens k n =
     \<lparr>c_op = fst (sym_value type (symbols lens ! k)), c_bits = n,
      c_val = snd (sym_value type (symbols lens ! k))\<rparr>"

text \<open>The tables decode the window \<open>w\<close> to the \<open>j\<close>-th symbol, by the root entry or by a
  sub-table that lies below \<open>lim\<close>.\<close>

definition decodes :: "codetype \<Rightarrow> nat list \<Rightarrow> code list \<Rightarrow> nat \<Rightarrow> nat \<Rightarrow> nat \<Rightarrow> nat \<Rightarrow> bool" where
  "decodes type lens tab root lim w j \<longleftrightarrow>
     code_len lens j \<le> root \<and>
       tab ! (w mod 2 ^ root) = symbol_entry type lens j (code_len lens j) \<or>
     root < code_len lens j \<and>
       (\<exists>v c. tab ! (w mod 2 ^ root) = \<lparr>c_op = c, c_bits = root, c_val = v\<rparr> \<and> 1 \<le> c \<and> c < 16 \<and> root + c \<le> MAXBITS \<and>
          2 ^ root \<le> v \<and> v + 2 ^ c \<le> lim \<and> code_len lens j - root \<le> c \<and>
          tab ! (v + w div 2 ^ root mod 2 ^ c) = symbol_entry type lens j (code_len lens j - root))"

lemma decodes_lookup:
  assumes "decodes type lens tab root lim w j" "symbols lens ! j < max_symbols type"
  shows "lookup tab root w = (fst (sym_value type (symbols lens ! j)),
    snd (sym_value type (symbols lens ! j)), code_len lens j)"
  using assms sym_value_no_link [OF assms(2)]
  by (auto simp: decodes_def lookup_def is_link_def symbol_entry_def Let_def)

lemma decodes_mono: "decodes type lens tab root lim w j \<Longrightarrow> lim \<le> lim' \<Longrightarrow> decodes type lens tab root lim' w j"
  by (auto simp: decodes_def)

text \<open>Changes elsewhere do not matter.\<close>

lemma decodes_keep:
  assumes d: "decodes type lens tab root lim w j"
    and root: "tab' ! (w mod 2 ^ root) = tab ! (w mod 2 ^ root)"
    and sub: "\<And>v c. tab ! (w mod 2 ^ root) = \<lparr>c_op = c, c_bits = root, c_val = v\<rparr> \<Longrightarrow>
      2 ^ root \<le> v \<Longrightarrow> v + 2 ^ c \<le> lim \<Longrightarrow>
      tab' ! (v + w div 2 ^ root mod 2 ^ c) = tab ! (v + w div 2 ^ root mod 2 ^ c)"
  shows "decodes type lens tab' root lim w j"
  using d unfolding decodes_def root using sub by metis

section \<open>Regions\<close>

text \<open>Windows with the same root index are those whose reversals agree in their first \<open>root\<close>
  bits.\<close>

lemma same_root_iff:
  assumes "r \<le> MAXBITS" "g < 2 ^ MAXBITS"
  shows "w mod 2 ^ r = revb MAXBITS g mod 2 ^ r \<longleftrightarrow>
    revb MAXBITS w div 2 ^ (MAXBITS - r) = g div 2 ^ (MAXBITS - r)"
proof -
  let ?D = "2 ^ (MAXBITS - r) :: nat"
  let ?G = "?D * (g div ?D)"
  have le: "?G \<le> g" by simp
  then have G: "?G < 2 ^ MAXBITS" "?D dvd ?G" "?G div ?D = g div ?D"
    using le_less_trans [OF le assms(2)] by auto
  have "revb MAXBITS g mod 2 ^ r = revb MAXBITS ?G"
    using window_prefix_iff [OF assms(1) G(2), of "revb MAXBITS g"] G assms(2) by (simp add: revb_revb)
  moreover have "w mod 2 ^ r = revb MAXBITS ?G \<longleftrightarrow> revb MAXBITS w div ?D = g div ?D"
    using window_prefix_iff [OF assms(1) G(2), of w] G by simp
  ultimately show ?thesis by simp
qed

definition region_end :: "nat \<Rightarrow> nat \<Rightarrow> nat" where
  "region_end r g = (g div 2 ^ (MAXBITS - r) + 1) * 2 ^ (MAXBITS - r)"

lemma region_end_gt: "g < region_end r g"
  unfolding region_end_def using dividend_less_times_div [of "2 ^ (MAXBITS - r)" g]
  by (simp add: algebra_simps)

lemma interval_in_region:
  assumes "k < length (symbols lens)" "r \<le> code_len lens k"
  shows "gpos lens (Suc k) \<le> region_end r (gpos lens k)"
proof -
  let ?d = "2 ^ (MAXBITS - code_len lens k) :: nat" and ?D = "2 ^ (MAXBITS - r) :: nat"
  from gpos_dvd [OF assms(1) refl] obtain q where q: "gpos lens k = ?d * q" by blast
  have "?d dvd ?D" using assms(2) by (intro le_imp_power_dvd) simp
  then obtain e where e: "?D = ?d * e" by blast
  have "region_end r (gpos lens k) = ?d * (e * (gpos lens k div ?D + 1))"
    by (simp add: region_end_def e algebra_simps)
  moreover have "?d * q < region_end r (gpos lens k)" using region_end_gt q by metis
  ultimately have "q + 1 \<le> e * (gpos lens k div ?D + 1)" by simp
  then have "?d * (q + 1) \<le> ?d * (e * (gpos lens k div ?D + 1))" by (rule mult_le_mono2)
  then show ?thesis
    using \<open>region_end r (gpos lens k) = _\<close> by (simp add: gpos_Suc q add.commute)
qed

lemma same_region:
  assumes "g \<le> x" "x < region_end r g"
  shows "x div 2 ^ (MAXBITS - r) = g div 2 ^ (MAXBITS - r)"
proof -
  have "x div 2 ^ (MAXBITS - r) < g div 2 ^ (MAXBITS - r) + 1"
    using assms(2) unfolding region_end_def by (simp add: less_mult_imp_div_less)
  moreover have "g div 2 ^ (MAXBITS - r) \<le> x div 2 ^ (MAXBITS - r)" using assms(1) by (rule div_le_mono)
  ultimately show ?thesis by simp
qed


section \<open>The invariant of the loop\<close>

definition table_inv :: "codetype \<Rightarrow> nat list \<Rightarrow> nat \<Rightarrow> nat \<Rightarrow> tstate \<Rightarrow> bool" where
  "table_inv type lens root k t \<longleftrightarrow>
     (\<forall>w < 2 ^ MAXBITS. revb MAXBITS w < gpos lens k \<longrightarrow>
        (\<exists>j<k. gpos lens j \<le> revb MAXBITS w \<and> revb MAXBITS w < gpos lens (Suc j) \<and>
           decodes type lens (t_table t) root
             (if t_low t = Some (w mod 2 ^ root) then t_used t else t_next t) w j))"

lemma table_inv_cong:
  assumes "t_table t = t_table t'" "t_low t = t_low t'" "t_used t = t_used t'" "t_next t = t_next t'"
  shows "table_inv type lens root k t \<longleftrightarrow> table_inv type lens root k t'"
  using assms by (simp add: table_inv_def)

definition in_root :: "nat \<Rightarrow> tstate \<Rightarrow> bool" where
  "in_root root t \<longleftrightarrow> t_drop t = 0 \<and> t_next t = 0 \<and> t_curr t = root \<and> t_low t = None \<and>
     t_used t = 2 ^ root"

definition in_sub :: "nat list \<Rightarrow> nat \<Rightarrow> nat \<Rightarrow> nat \<Rightarrow> tstate \<Rightarrow> bool" where
  "in_sub lens root N k t \<longleftrightarrow> t_drop t = root \<and> 2 ^ root \<le> t_next t \<and>
     t_used t = t_next t + 2 ^ t_curr t \<and> t_used t \<le> N \<and> 1 \<le> t_curr t \<and> root + t_curr t \<le> MAXBITS \<and>
     t_low t = Some (huff_code lens k mod 2 ^ root) \<and>
     t_table t ! (huff_code lens k mod 2 ^ root) =
       \<lparr>c_op = t_curr t, c_bits = root, c_val = t_next t\<rparr> \<and>
     (\<forall>j. k \<le> j \<and> j < length (symbols lens) \<and> gpos lens j < region_end root (gpos lens k) \<longrightarrow>
        code_len lens j \<le> root + t_curr t)"

definition loop_inv :: "codetype \<Rightarrow> nat list \<Rightarrow> nat \<Rightarrow> nat \<Rightarrow> nat \<Rightarrow> tstate \<Rightarrow> bool" where
  "loop_inv type lens root N k t \<longleftrightarrow>
     k < length (symbols lens) \<and> t_sym t = k \<and> t_len t = code_len lens k \<and>
     t_huff t = huff_code lens k \<and> length (t_count t) = MAXBITS + 1 \<and>
     (\<forall>l. 1 \<le> l \<and> l \<le> MAXBITS \<longrightarrow> t_count t ! l = n_left lens k l) \<and>
     length (t_table t) = N \<and> table_inv type lens root k t \<and>
     (code_len lens k \<le> root \<and> in_root root t \<or> root < code_len lens k \<and> in_sub lens root N k t)"

text \<open>What the callers give: enough memory and few enough symbols.\<close>

definition table_args :: "codetype \<Rightarrow> nat list \<Rightarrow> nat \<Rightarrow> nat \<Rightarrow> bool" where
  "table_args type lens root N \<longleftrightarrow>
     1 \<le> root \<and> root \<le> MAXBITS \<and> 2 ^ root \<le> N \<and> length lens \<le> max_symbols type \<and>
     (\<forall>l \<in> set lens. l \<le> MAXBITS) \<and> kraft lens \<le> 2 ^ MAXBITS \<and>
     (case type of
        CODES \<Rightarrow> \<forall>l \<in> set lens. l \<le> root
      | LENS \<Rightarrow> ENOUGH_LENS \<le> N
      | DISTS \<Rightarrow> ENOUGH_DISTS \<le> N)"

lemma gpos_le_kraft: "k \<le> length (symbols lens) \<Longrightarrow> gpos lens k \<le> kraft lens"
  unfolding kraft_def by (rule gpos_mono)

lemma gpos_less_full:
  assumes "k < length (symbols lens)" "kraft lens \<le> 2 ^ MAXBITS"
  shows "gpos lens k < 2 ^ MAXBITS"
  using gpos_le_kraft [of "Suc k" lens] assms zero_less_power [of "2::nat" "MAXBITS - code_len lens k"]
  unfolding gpos_Suc by linarith

lemma huff_code_less:
  assumes "k < length (symbols lens)"
  shows "huff_code lens k < 2 ^ code_len lens k"
proof -
  from gpos_dvd [OF assms refl] obtain q where q: "gpos lens k = 2 ^ (MAXBITS - code_len lens k) * q" by blast
  show ?thesis
    using revb_less [of "code_len lens k" q] revb_shift [OF code_len_bounds(2) [OF assms], of q]
    by (simp add: huff_code_def q)
qed

lemma back_incr_huff:
  assumes "k < length (symbols lens)" "kraft lens \<le> 2 ^ MAXBITS"
  shows "back_incr (huff_code lens k) (code_len lens k) = huff_code lens (Suc k)"
proof -
  let ?l = "code_len lens k"
  note b = code_len_bounds [OF assms(1)]
  from gpos_dvd [OF assms(1) refl] obtain q where q: "gpos lens k = 2 ^ (MAXBITS - ?l) * q" by blast
  have "2 ^ (MAXBITS - ?l) * q < 2 ^ (MAXBITS - ?l) * 2 ^ ?l"
    using gpos_less_full [OF assms] q b by (simp add: power_add [symmetric])
  then have "q < 2 ^ ?l" by simp
  moreover have "gpos lens (Suc k) = 2 ^ (MAXBITS - ?l) * (q + 1)" by (simp add: gpos_Suc q)
  ultimately show ?thesis
    using back_incr_revb [OF b(1), of q] revb_shift [OF b(2), of q] revb_shift [OF b(2), of "q + 1"]
    by (simp add: huff_code_def q)
qed

lemma symbol_bound:
  assumes "k < length (symbols lens)" "length lens \<le> max_symbols type"
  shows "symbols lens ! k < max_symbols type"
  using nth_mem [OF assms(1)] assms(2) by (auto simp: set_symbols)

text \<open>A window of the \<open>k\<close>-th code, and one of an earlier code.\<close>

lemma window_k:
  assumes "k < length (symbols lens)" "kraft lens \<le> 2 ^ MAXBITS" "w < 2 ^ MAXBITS"
  shows "w mod 2 ^ code_len lens k = huff_code lens k \<longleftrightarrow>
    gpos lens k \<le> revb MAXBITS w \<and> revb MAXBITS w < gpos lens (Suc k)"
  using window_code_iff [OF assms(1) _ assms(3)] gpos_le_kraft [of "Suc k" lens] assms(1,2)
  by (meson Suc_leI le_trans)


section \<open>Entering a code\<close>

lemma strided_iff:
  fixes base off x :: nat
  assumes "off < 2 ^ a" "a \<le> b"
  shows "(base + off \<le> x \<and> x < base + off + 2 ^ b \<and> 2 ^ a dvd x - (base + off)) \<longleftrightarrow>
    (base \<le> x \<and> x < base + 2 ^ b \<and> (x - base) mod 2 ^ a = off)"
proof -
  obtain q where q: "(2::nat) ^ b = 2 ^ a * q" using le_imp_power_dvd [OF assms(2)] by blast
  show ?thesis
  proof
    assume l: "base + off \<le> x \<and> x < base + off + 2 ^ b \<and> 2 ^ a dvd x - (base + off)"
    then obtain p where p: "x - (base + off) = 2 ^ a * p" by blast
    then have x: "x - base = off + 2 ^ a * p" using l by linarith
    have "2 ^ a * p < 2 ^ a * q" using l p q by linarith
    then have "p + 1 \<le> q" by simp
    then have "2 ^ a * (p + 1) \<le> 2 ^ b" unfolding q by (rule mult_le_mono2)
    then have "x - base < 2 ^ b" using x assms(1) by simp
    then show "base \<le> x \<and> x < base + 2 ^ b \<and> (x - base) mod 2 ^ a = off"
      using l x assms(1) by simp
  next
    assume r: "base \<le> x \<and> x < base + 2 ^ b \<and> (x - base) mod 2 ^ a = off"
    then have "x - base = off + 2 ^ a * ((x - base) div 2 ^ a)"
      using mod_mult_div_eq [of "x - base" "2 ^ a"] by simp
    then have "x - (base + off) = 2 ^ a * ((x - base) div 2 ^ a)" "base + off \<le> x"
      using r by linarith+
    then show "base + off \<le> x \<and> x < base + off + 2 ^ b \<and> 2 ^ a dvd x - (base + off)"
      using r by simp
  qed
qed

lemma put_table:
  assumes "off < 2 ^ a" "a \<le> b" "base + 2 ^ b \<le> length tab"
  shows "\<exists>tab'. replicate_entry here (base + off) (2 ^ a) (2 ^ b) tab = Some tab' \<and>
    length tab' = length tab \<and>
    (\<forall>x. tab' ! x = (if base \<le> x \<and> x < base + 2 ^ b \<and> (x - base) mod 2 ^ a = off then here else tab ! x))"
proof -
  have "(2::nat) ^ a \<le> 2 ^ b" using assms(2) by (rule power_increasing) simp
  then have "base + off + (2 ^ b - 2 ^ a) < length tab" using assms by linarith
  from replicate_entry_fills [OF assms(2) this le_imp_power_dvd [OF assms(2)], of here]
  show ?thesis unfolding strided_iff [OF assms(1,2)] by simp
qed

lemma mod_pow_mod: "a \<le> b \<Longrightarrow> w mod 2 ^ b mod 2 ^ a = w mod (2 ^ a :: nat)"
  by (simp add: mod_mod_cancel le_imp_power_dvd)

lemma mod_pow_split:
  fixes w :: nat
  assumes "r \<le> l"
  shows "w mod 2 ^ l = w mod 2 ^ r + 2 ^ r * (w div 2 ^ r mod 2 ^ (l - r))"
  using mod_mult2_eq [of w "2 ^ r" "2 ^ (l - r)"] assms by (simp add: power_add [symmetric] add.commute)

lemma put_code_root:
  assumes inv: "loop_inv type lens root N k t" and args: "table_args type lens root N"
    and work: "k < length work" "work ! k = symbols lens ! k" and le: "code_len lens k \<le> root"
  shows "\<exists>tab. put_code type work t = Some (t\<lparr>t_table := tab, t_huff := huff_code lens (Suc k)\<rparr>) \<and>
    length tab = N \<and> table_inv type lens root (Suc k) (t\<lparr>t_table := tab\<rparr>)"
proof -
  let ?l = "code_len lens k"
  from inv le have k: "k < length (symbols lens)" and ir: "in_root root t"
    and t: "t_sym t = k" "t_len t = ?l" "t_huff t = huff_code lens k" "length (t_table t) = N"
    and tinv: "table_inv type lens root k t"
    by (auto simp: loop_inv_def)
  from args have N: "2 ^ root \<le> N" and kr: "kraft lens \<le> 2 ^ MAXBITS" and sy: "length lens \<le> max_symbols type"
    by (simp_all add: table_args_def)
  note lb = code_len_bounds [OF k]
  let ?here = "symbol_entry type lens k ?l"
  from put_table [OF huff_code_less [OF k] le, of 0 "t_table t" ?here] N t obtain tab where
    tab: "replicate_entry ?here (huff_code lens k) (2 ^ ?l) (2 ^ root) (t_table t) = Some tab"
      "length tab = N"
      "\<And>x. tab ! x = (if x < 2 ^ root \<and> x mod 2 ^ ?l = huff_code lens k then ?here else t_table t ! x)"
    by auto
  have "?l mod 256 = ?l" using lb by (simp add: MAXBITS_def)
  then have "put_code type work t = Some (t\<lparr>t_table := tab, t_huff := huff_code lens (Suc k)\<rparr>)"
    using t work ir tab(1) back_incr_huff [OF k kr] sym_entry_value [OF symbol_bound [OF k sy], of work ?l]
    by (simp add: put_code_def array_simps in_root_def symbol_entry_def)
  moreover have "table_inv type lens root (Suc k) (t\<lparr>t_table := tab\<rparr>)"
    unfolding table_inv_def
  proof (intro allI impI)
    fix w assume w: "w < 2 ^ MAXBITS" "revb MAXBITS w < gpos lens (Suc k)"
    note wk = window_k [OF k kr w(1)]
    have idx: "w mod 2 ^ root mod 2 ^ ?l = w mod 2 ^ ?l" using le by (rule mod_pow_mod)
    show "\<exists>j<Suc k. gpos lens j \<le> revb MAXBITS w \<and> revb MAXBITS w < gpos lens (Suc j) \<and>
        decodes type lens (t_table (t\<lparr>t_table := tab\<rparr>)) root
          (if t_low (t\<lparr>t_table := tab\<rparr>) = Some (w mod 2 ^ root) then t_used (t\<lparr>t_table := tab\<rparr>)
           else t_next (t\<lparr>t_table := tab\<rparr>)) w j"
    proof (cases "gpos lens k \<le> revb MAXBITS w")
      case True
      with w wk have "w mod 2 ^ ?l = huff_code lens k" by blast
      with tab(3) [of "w mod 2 ^ root"] idx le True w show ?thesis
        by (intro exI [of _ k]) (simp add: decodes_def)
    next
      case False
      with w tinv ir obtain j where j: "j < k" "gpos lens j \<le> revb MAXBITS w"
          "revb MAXBITS w < gpos lens (Suc j)" "decodes type lens (t_table t) root 0 w j"
        by (auto simp: table_inv_def in_root_def)
      have "tab ! (w mod 2 ^ root) = t_table t ! (w mod 2 ^ root)"
        using tab(3) [of "w mod 2 ^ root"] idx wk False by simp
      from decodes_keep [OF j(4) this] have "decodes type lens tab root 0 w j" by simp
      with j ir show ?thesis by (intro exI [of _ j]) (simp add: in_root_def)
    qed
  qed
  ultimately show ?thesis using tab(2) by blast
qed


lemma put_code_sub:
  assumes inv: "loop_inv type lens root N k t" and args: "table_args type lens root N"
    and work: "k < length work" "work ! k = symbols lens ! k" and gt: "root < code_len lens k"
  shows "\<exists>tab. put_code type work t = Some (t\<lparr>t_table := tab, t_huff := huff_code lens (Suc k)\<rparr>) \<and>
    length tab = N \<and> table_inv type lens root (Suc k) (t\<lparr>t_table := tab\<rparr>) \<and>
    tab ! (huff_code lens k mod 2 ^ root) = t_table t ! (huff_code lens k mod 2 ^ root)"
proof -
  let ?l = "code_len lens k" and ?h = "huff_code lens k"
  let ?p = "?h mod 2 ^ root" and ?off = "?h div 2 ^ root" and ?a = "code_len lens k - root"
  from inv gt have k: "k < length (symbols lens)" and sub: "in_sub lens root N k t"
    and t: "t_sym t = k" "t_len t = ?l" "t_huff t = ?h" "length (t_table t) = N"
    and tinv: "table_inv type lens root k t"
    by (auto simp: loop_inv_def)
  from args have kr: "kraft lens \<le> 2 ^ MAXBITS" and sy: "length lens \<le> max_symbols type"
    by (simp_all add: table_args_def)
  from sub k region_end_gt have s: "t_drop t = root" "2 ^ root \<le> t_next t"
      "t_used t = t_next t + 2 ^ t_curr t" "t_used t \<le> N" "1 \<le> t_curr t" "root + t_curr t \<le> MAXBITS"
      "t_low t = Some ?p" "t_table t ! ?p = \<lparr>c_op = t_curr t, c_bits = root, c_val = t_next t\<rparr>"
      "?l \<le> root + t_curr t"
    by (auto simp: in_sub_def)
  note lb = code_len_bounds [OF k]
  let ?here = "symbol_entry type lens k ?a"
  have off: "?off < 2 ^ ?a"
    using huff_code_less [OF k] gt
    by (intro less_mult_imp_div_less) (simp add: power_add [symmetric])
  have a: "?a \<le> t_curr t" "t_next t + 2 ^ t_curr t \<le> length (t_table t)" using s t by auto
  from put_table [OF off a, of ?here] obtain tab where
    tab: "replicate_entry ?here (t_next t + ?off) (2 ^ ?a) (2 ^ t_curr t) (t_table t) = Some tab"
      "length tab = N"
    and nth: "\<And>x. tab ! x = (if t_next t \<le> x \<and> x < t_next t + 2 ^ t_curr t \<and>
        (x - t_next t) mod 2 ^ ?a = ?off then ?here else t_table t ! x)"
    using t by auto
  have "?a mod 256 = ?a" using lb by (simp add: MAXBITS_def)
  then have "put_code type work t = Some (t\<lparr>t_table := tab, t_huff := huff_code lens (Suc k)\<rparr>)"
    using t work s tab(1) back_incr_huff [OF k kr] sym_entry_value [OF symbol_bound [OF k sy], of work ?a]
    by (simp add: put_code_def array_simps symbol_entry_def)
  moreover have low: "tab ! x = t_table t ! x" if "x < 2 ^ root" for x
    using nth [of x] that s(2) by simp
  have "table_inv type lens root (Suc k) (t\<lparr>t_table := tab\<rparr>)"
    unfolding table_inv_def
  proof (intro allI impI)
    fix w assume w: "w < 2 ^ MAXBITS" "revb MAXBITS w < gpos lens (Suc k)"
    note wk = window_k [OF k kr w(1)]
    let ?lim = "if t_low t = Some (w mod 2 ^ root) then t_used t else t_next t"
    have r: "w mod 2 ^ root < 2 ^ root" by simp
    have split: "w mod 2 ^ ?l = w mod 2 ^ root + 2 ^ root * (w div 2 ^ root mod 2 ^ ?a)"
      using gt by (intro mod_pow_split) simp
    have hsplit: "?h = ?p + 2 ^ root * ?off" by simp
    have pick: "w div 2 ^ root mod 2 ^ t_curr t mod 2 ^ ?a = w div 2 ^ root mod 2 ^ ?a"
      using a(1) by (rule mod_pow_mod)
    show "\<exists>j<Suc k. gpos lens j \<le> revb MAXBITS w \<and> revb MAXBITS w < gpos lens (Suc j) \<and>
        decodes type lens (t_table (t\<lparr>t_table := tab\<rparr>)) root
          (if t_low (t\<lparr>t_table := tab\<rparr>) = Some (w mod 2 ^ root) then t_used (t\<lparr>t_table := tab\<rparr>)
           else t_next (t\<lparr>t_table := tab\<rparr>)) w j"
    proof (cases "gpos lens k \<le> revb MAXBITS w")
      case True
      with w wk have h: "w mod 2 ^ ?l = ?h" by blast
      have p: "w mod 2 ^ root = ?p"
        using h gt mod_pow_mod [of root ?l w] by simp
      have o: "w div 2 ^ root mod 2 ^ ?a = ?off"
      proof -
        have "2 ^ root * (w div 2 ^ root mod 2 ^ ?a) = 2 ^ root * ?off"
          using split hsplit p h by linarith
        then show ?thesis by simp
      qed
      let ?x = "t_next t + w div 2 ^ root mod 2 ^ t_curr t"
      have "tab ! ?x = ?here" using nth [of ?x] pick o by simp
      moreover have "tab ! ?p = \<lparr>c_op = t_curr t, c_bits = root, c_val = t_next t\<rparr>"
        using low [of ?p] s(8) by simp
      moreover have "t_curr t < 16" using s(6) by (simp add: MAXBITS_def)
      ultimately show ?thesis
        using True w p s gt a(1) by (intro exI [of _ k]) (auto simp: decodes_def)
    next
      case False
      with w tinv obtain j where j: "j < k" "gpos lens j \<le> revb MAXBITS w"
          "revb MAXBITS w < gpos lens (Suc j)" "decodes type lens (t_table t) root ?lim w j"
        by (auto simp: table_inv_def)
      have "decodes type lens tab root ?lim w j"
      proof (rule decodes_keep [OF j(4) low [OF r]])
        fix v c assume e: "t_table t ! (w mod 2 ^ root) = \<lparr>c_op = c, c_bits = root, c_val = v\<rparr>"
          and v: "2 ^ root \<le> v" "v + 2 ^ c \<le> ?lim"
        let ?x = "v + w div 2 ^ root mod 2 ^ c"
        have x: "?x < v + 2 ^ c" by simp
        show "tab ! ?x = t_table t ! ?x"
        proof (cases "w mod 2 ^ root = ?p")
          case True
          with e s(8) have vc: "v = t_next t" "c = t_curr t" by auto
          have "w div 2 ^ root mod 2 ^ ?a \<noteq> ?off"
          proof
            assume "w div 2 ^ root mod 2 ^ ?a = ?off"
            then have "w mod 2 ^ ?l = ?h" using split True hsplit by simp
            with wk False show False by blast
          qed
          then show ?thesis using nth [of ?x] pick vc by simp
        next
          case ne: False
          then have "v + 2 ^ c \<le> t_next t" using s(7) v(2) by simp
          with x have "?x < t_next t" by (rule less_le_trans)
          then show ?thesis using nth [of ?x] by simp
        qed
      qed
      with j show ?thesis by (intro exI [of _ j]) (simp cong: if_cong split del: if_split)
    qed
  qed
  moreover have "tab ! ?p = t_table t ! ?p" by (rule low) simp
  ultimately show ?thesis using tab(2) by blast
qed


section \<open>Opening a sub-table\<close>

text \<open>When the code after the \<open>k\<close>-th leaves the current sub-table, it starts a region.\<close>

lemma new_region:
  assumes k: "Suc k < length (symbols lens)" and kr: "kraft lens \<le> 2 ^ MAXBITS"
    and gt: "root < code_len lens (Suc k)" and r: "root \<le> MAXBITS"
    and new: "code_len lens k \<le> root \<or>
      huff_code lens (Suc k) mod 2 ^ root \<noteq> huff_code lens k mod 2 ^ root"
  shows "2 ^ (MAXBITS - root) dvd gpos lens (Suc k)"
proof (cases "code_len lens k \<le> root")
  case True
  have "2 ^ (MAXBITS - root) dvd (2 ^ (MAXBITS - code_len lens k) :: nat)"
    using True by (intro le_imp_power_dvd) simp
  moreover have "2 ^ (MAXBITS - code_len lens k) dvd gpos lens k" using k by (intro gpos_dvd) simp_all
  ultimately show ?thesis unfolding gpos_Suc by (meson dvd_add dvd_trans)
next
  case False
  let ?D = "2 ^ (MAXBITS - root) :: nat"
  from k have k': "k < length (symbols lens)" by simp
  note full = gpos_less_full [OF k' kr] gpos_less_full [OF k kr]
  have "\<not> gpos lens (Suc k) < region_end root (gpos lens k)"
  proof
    assume "gpos lens (Suc k) < region_end root (gpos lens k)"
    then have "gpos lens (Suc k) div ?D = gpos lens k div ?D"
      by (intro same_region gpos_mono) simp_all
    then have "huff_code lens (Suc k) mod 2 ^ root = huff_code lens k mod 2 ^ root"
      using same_root_iff [OF r full(1), of "huff_code lens (Suc k)"] full(2)
      by (simp add: huff_code_def revb_revb)
    with new False show False by simp
  qed
  with interval_in_region [OF k', of root] False
  have "gpos lens (Suc k) = region_end root (gpos lens k)" by simp
  then show ?thesis by (simp add: region_end_def)
qed

text \<open>The look-ahead makes the sub-table long enough for all codes of the region.\<close>

lemma region_lens:
  assumes k: "k < length (symbols lens)" and r: "root + c \<le> MAXBITS" "1 \<le> c"
    and g: "2 ^ (MAXBITS - root) dvd gpos lens k"
    and fills: "root + c = code_len lens (length (symbols lens) - 1) \<or> 2 ^ c \<le> span lens k (root + c)"
    and j: "k \<le> j" "j < length (symbols lens)" "gpos lens j < region_end root (gpos lens k)"
  shows "code_len lens j \<le> root + c"
proof (rule ccontr)
  assume "\<not> code_len lens j \<le> root + c"
  then have long: "root + c < code_len lens j" by simp
  have "code_len lens j \<le> code_len lens (length (symbols lens) - 1)"
    using j by (intro code_len_mono) auto
  with long fills have sp: "2 ^ c \<le> span lens k (root + c)" by simp
  let ?A = "{i. k \<le> i \<and> i < length (symbols lens) \<and> code_len lens i \<le> root + c}"
  let ?E = "2 ^ (MAXBITS - (root + c)) :: nat"
  have before: "?A \<subseteq> {k..<j}"
  proof
    fix i assume i: "i \<in> ?A"
    have "i < j"
    proof (rule ccontr)
      assume "\<not> i < j"
      then have "code_len lens j \<le> code_len lens i" using i by (intro code_len_mono) auto
      with i long show False by simp
    qed
    with i show "i \<in> {k..<j}" by simp
  qed
  have "2 ^ (MAXBITS - root) = ?E * 2 ^ c" using r by (simp add: power_add [symmetric])
  also have "\<dots> \<le> ?E * span lens k (root + c)" using sp by (rule mult_le_mono2)
  also have "\<dots> = (\<Sum>i\<in>?A. 2 ^ (MAXBITS - code_len lens i))"
    unfolding span_def sum_distrib_left
  proof (rule sum.cong [OF refl])
    fix i assume "i \<in> ?A"
    then show "?E * 2 ^ (root + c - code_len lens i) = 2 ^ (MAXBITS - code_len lens i)"
      using r by (simp add: power_add [symmetric])
  qed
  also have "\<dots> \<le> (\<Sum>i\<in>{k..<j}. 2 ^ (MAXBITS - code_len lens i))"
    using before by (intro sum_mono2) auto
  also have "\<dots> = gpos lens j - gpos lens k"
  proof -
    have "{..<j} = {..<k} \<union> {k..<j}" "{..<k} \<inter> {k..<j} = {}" using j(1) by auto
    then have "gpos lens j = gpos lens k + (\<Sum>i\<in>{k..<j}. 2 ^ (MAXBITS - code_len lens i))"
      by (simp add: gpos_def sum.union_disjoint)
    then show ?thesis by simp
  qed
  finally have "gpos lens k + 2 ^ (MAXBITS - root) \<le> gpos lens j"
    using gpos_mono [OF j(1), of lens] by linarith
  moreover have "region_end root (gpos lens k) = gpos lens k + 2 ^ (MAXBITS - root)"
    using g by (auto simp: region_end_def)
  ultimately show False using j(3) by simp
qed


lemma span_below:
  assumes "k < length (symbols lens)" "m < code_len lens k"
  shows "span lens k m = 0"
proof -
  have "{j. k \<le> j \<and> j < length (symbols lens) \<and> code_len lens j \<le> m} = {}"
    using assms code_len_mono [of k _ lens] by fastforce
  then show ?thesis by (simp only: span_def sum.empty)
qed

text \<open>The bookkeeping between two codes.\<close>

definition stepped :: "nat list \<Rightarrow> nat \<Rightarrow> code list \<Rightarrow> tstate \<Rightarrow> tstate" where
  "stepped lens k tab t = t\<lparr>t_table := tab, t_huff := huff_code lens (Suc k), t_sym := Suc k,
     t_count := (t_count t)[code_len lens k := n_left lens (Suc k) (code_len lens k)],
     t_len := code_len lens (Suc k)\<rparr>"

lemma counts_step:
  assumes "k < length (symbols lens)" "length count = MAXBITS + 1"
    and "\<forall>l. 1 \<le> l \<and> l \<le> MAXBITS \<longrightarrow> count ! l = n_left lens k l"
  shows "count ! code_len lens k = Suc (n_left lens (Suc k) (code_len lens k))"
    and "\<forall>l. 1 \<le> l \<and> l \<le> MAXBITS \<longrightarrow>
      count[code_len lens k := n_left lens (Suc k) (code_len lens k)] ! l = n_left lens (Suc k) l"
  using assms(2,3) code_len_bounds [OF assms(1)] n_left_Suc [OF assms(1)]
  by (auto simp: nth_list_update)

lemma last_code_iff:
  assumes "k < length (symbols lens)"
  shows "n_left lens (Suc k) (code_len lens k) = 0 \<and>
      code_len lens k = code_len lens (length (symbols lens) - 1) \<longleftrightarrow> Suc k = length (symbols lens)"
proof
  assume z: "n_left lens (Suc k) (code_len lens k) = 0 \<and>
      code_len lens k = code_len lens (length (symbols lens) - 1)"
  show "Suc k = length (symbols lens)"
  proof (rule ccontr)
    assume "Suc k \<noteq> length (symbols lens)"
    with assms have "length (symbols lens) - 1 \<in>
        set (filter (\<lambda>j. code_len lens j = code_len lens k) [Suc k..<length (symbols lens)])"
      using z by auto
    with z show False by (simp only: n_left_def length_0_conv) (metis empty_iff list.set(1))
  qed
next
  assume e: "Suc k = length (symbols lens)"
  then have "k = length (symbols lens) - 1" by simp
  with e show "n_left lens (Suc k) (code_len lens k) = 0 \<and>
      code_len lens k = code_len lens (length (symbols lens) - 1)"
    by (simp add: n_left_def)
qed

lemma next_len:
  assumes "Suc k < length (symbols lens)" "n_left lens (Suc k) (code_len lens k) \<noteq> 0"
  shows "code_len lens (Suc k) = code_len lens k"
proof -
  from assms(2) have "filter (\<lambda>j. code_len lens j = code_len lens k) [Suc k..<length (symbols lens)] \<noteq> []"
    by (simp add: n_left_def)
  then obtain j where j: "Suc k \<le> j" "j < length (symbols lens)" "code_len lens j = code_len lens k"
    by (auto simp: filter_empty_conv)
  have "code_len lens (Suc k) \<le> code_len lens j" using j by (intro code_len_mono)
  moreover have "code_len lens k \<le> code_len lens (Suc k)" using assms(1) by (intro code_len_mono) auto
  ultimately show ?thesis using j(3) by simp
qed

text \<open>A code that stays in its table.\<close>

lemma keep_table:
  assumes inv: "loop_inv type lens root N k t" and args: "table_args type lens root N"
    and k: "Suc k < length (symbols lens)"
    and tab: "length tab = N" "table_inv type lens root (Suc k) (t\<lparr>t_table := tab\<rparr>)"
    and same: "code_len lens (Suc k) \<le> root \<or>
      t_low t = Some (huff_code lens (Suc k) mod 2 ^ root) \<and>
      tab ! (huff_code lens k mod 2 ^ root) = t_table t ! (huff_code lens k mod 2 ^ root)"
  shows "loop_inv type lens root N (Suc k) (stepped lens k tab t)"
proof -
  let ?t = "stepped lens k tab t"
  have mono: "code_len lens k \<le> code_len lens (Suc k)" using k by (intro code_len_mono) auto
  from inv k have cnt: "length (t_count t) = MAXBITS + 1"
      "\<forall>l. 1 \<le> l \<and> l \<le> MAXBITS \<longrightarrow> t_count t ! l = n_left lens k l"
    by (auto simp: loop_inv_def)
  have k': "k < length (symbols lens)" using k by simp
  note c = counts_step(2) [OF k' cnt]
  have ti: "table_inv type lens root (Suc k) ?t"
    by (rule table_inv_cong [THEN iffD1, OF _ _ _ _ tab(2)]) (simp_all add: stepped_def)
  have base: "Suc k < length (symbols lens)" "t_sym ?t = Suc k" "t_len ?t = code_len lens (Suc k)"
      "t_huff ?t = huff_code lens (Suc k)" "length (t_count ?t) = MAXBITS + 1"
      "\<forall>l. 1 \<le> l \<and> l \<le> MAXBITS \<longrightarrow> t_count ?t ! l = n_left lens (Suc k) l"
      "length (t_table ?t) = N" "table_inv type lens root (Suc k) ?t"
    using k c tab cnt ti by (simp_all add: stepped_def)
  have "code_len lens (Suc k) \<le> root \<and> in_root root ?t \<or>
      root < code_len lens (Suc k) \<and> in_sub lens root N (Suc k) ?t"
  proof (cases "code_len lens (Suc k) \<le> root")
    case True
    with mono inv have "in_root root t" by (auto simp: loop_inv_def)
    with True show ?thesis by (simp add: in_root_def stepped_def)
  next
    case False
    with same have low: "t_low t = Some (huff_code lens (Suc k) mod 2 ^ root)"
        "tab ! (huff_code lens k mod 2 ^ root) = t_table t ! (huff_code lens k mod 2 ^ root)" by auto
    with inv have sub: "in_sub lens root N k t" by (auto simp: loop_inv_def in_root_def)
    then have p: "huff_code lens (Suc k) mod 2 ^ root = huff_code lens k mod 2 ^ root"
      using low(1) by (simp add: in_sub_def)
    from args have kr: "kraft lens \<le> 2 ^ MAXBITS" and r: "root \<le> MAXBITS" by (simp_all add: table_args_def)
    note full = gpos_less_full [OF k' kr] gpos_less_full [OF k kr]
    have "gpos lens (Suc k) div 2 ^ (MAXBITS - root) = gpos lens k div 2 ^ (MAXBITS - root)"
      using same_root_iff [OF r full(1), of "huff_code lens (Suc k)"] full(2) p
      by (simp add: huff_code_def revb_revb)
    then have e: "region_end root (gpos lens (Suc k)) = region_end root (gpos lens k)"
      by (simp add: region_end_def)
    with sub p low(2) False show ?thesis
      by (auto simp: in_sub_def stepped_def)
  qed
  with base show ?thesis unfolding loop_inv_def by blast
qed


text \<open>A code that opens a sub-table.\<close>

definition opened :: "nat list \<Rightarrow> nat \<Rightarrow> nat \<Rightarrow> nat \<Rightarrow> tstate \<Rightarrow> tstate" where
  "opened lens root k c t = t\<lparr>t_drop := root, t_next := t_used t, t_curr := c,
     t_used := t_used t + 2 ^ c, t_low := Some (huff_code lens k mod 2 ^ root),
     t_table := (t_table t)[huff_code lens k mod 2 ^ root :=
       \<lparr>c_op = c, c_bits = root, c_val = t_used t\<rparr>]\<rparr>"

lemma open_table:
  assumes inv: "loop_inv type lens root N k t" and args: "table_args type lens root N"
    and k: "Suc k < length (symbols lens)"
    and tab: "length tab = N" "table_inv type lens root (Suc k) (t\<lparr>t_table := tab\<rparr>)"
    and gt: "root < code_len lens (Suc k)"
    and new: "t_low t \<noteq> Some (huff_code lens (Suc k) mod 2 ^ root)"
    and c: "1 \<le> c" "root + c \<le> MAXBITS" "code_len lens (Suc k) \<le> root + c"
      "root + c = code_len lens (length (symbols lens) - 1) \<or> 2 ^ c \<le> span lens (Suc k) (root + c)"
    and N: "t_used t + 2 ^ c \<le> N"
  shows "loop_inv type lens root N (Suc k) (opened lens root (Suc k) c (stepped lens k tab t))"
proof -
  let ?s = "stepped lens k tab t"
  let ?t = "opened lens root (Suc k) c ?s"
  let ?p = "huff_code lens (Suc k) mod 2 ^ root"
  from inv k have cnt: "length (t_count t) = MAXBITS + 1"
      "\<forall>l. 1 \<le> l \<and> l \<le> MAXBITS \<longrightarrow> t_count t ! l = n_left lens k l"
    by (auto simp: loop_inv_def)
  have k': "k < length (symbols lens)" using k by simp
  from args have kr: "kraft lens \<le> 2 ^ MAXBITS" and r: "1 \<le> root" "root \<le> MAXBITS" "2 ^ root \<le> N"
    by (simp_all add: table_args_def)
  note full = gpos_less_full [OF k kr]
  have len: "t_used ?s = t_used t" "t_table ?s = tab" by (simp_all add: stepped_def)
  have p: "?p < length tab" using r(3) tab(1) by (intro less_le_trans [OF mod_less_divisor]) simp_all
  have "code_len lens k \<le> root \<or> ?p \<noteq> huff_code lens k mod 2 ^ root"
    using inv new by (auto simp: loop_inv_def in_sub_def)
  from new_region [OF k kr gt r(2) this] have dvd: "2 ^ (MAXBITS - root) dvd gpos lens (Suc k)" .
  have used: "2 ^ root \<le> t_used t" "t_next t \<le> t_used t"
    using inv by (auto simp: loop_inv_def in_root_def in_sub_def)
  have "table_inv type lens root (Suc k) ?t"
    unfolding table_inv_def
  proof (intro allI impI)
    fix w assume w: "w < 2 ^ MAXBITS" "revb MAXBITS w < gpos lens (Suc k)"
    let ?lim = "if t_low t = Some (w mod 2 ^ root) then t_used t else t_next t"
    have ne: "w mod 2 ^ root \<noteq> ?p"
    proof
      assume "w mod 2 ^ root = ?p"
      then have "revb MAXBITS w div 2 ^ (MAXBITS - root) = gpos lens (Suc k) div 2 ^ (MAXBITS - root)"
        using same_root_iff [OF r(2) full] by (simp add: huff_code_def)
      then have "gpos lens (Suc k) \<le> revb MAXBITS w"
        using dvd div_times_less_eq_dividend [of "revb MAXBITS w" "2 ^ (MAXBITS - root)"] by simp
      with w show False by simp
    qed
    from w tab(2) obtain j where j: "j < Suc k" "gpos lens j \<le> revb MAXBITS w"
        "revb MAXBITS w < gpos lens (Suc j)" "decodes type lens tab root ?lim w j"
      by (auto simp: table_inv_def cong: if_cong split del: if_split)
    have nth: "t_table ?t ! x = tab ! x" if "x \<noteq> ?p" for x
      using that by (simp add: opened_def len)
    have "decodes type lens (t_table ?t) root ?lim w j"
    proof (rule decodes_keep [OF j(4) nth [OF ne]])
      fix v c' :: nat assume v: "2 ^ root \<le> v"
      have "?p < 2 ^ root" by simp
      with v show "t_table ?t ! (v + w div 2 ^ root mod 2 ^ c') = tab ! (v + w div 2 ^ root mod 2 ^ c')"
        by (intro nth) linarith
    qed
    then have "decodes type lens (t_table ?t) root (t_used t) w j"
      by (rule decodes_mono) (use used in simp)
    with j ne show "\<exists>j<Suc k. gpos lens j \<le> revb MAXBITS w \<and> revb MAXBITS w < gpos lens (Suc j) \<and>
        decodes type lens (t_table ?t) root (if t_low ?t = Some (w mod 2 ^ root) then t_used ?t else t_next ?t) w j"
      by (intro exI [of _ j]) (simp add: opened_def len)
  qed
  moreover have "in_sub lens root N (Suc k) ?t"
    using used c N p region_lens [OF k c(2,1) dvd c(4)] by (simp add: in_sub_def opened_def len)
  ultimately show ?thesis
    using counts_step(2) [OF k' cnt] cnt(1) k gt tab(1)
    by (simp add: loop_inv_def opened_def stepped_def)
qed


section \<open>The loop\<close>

text \<open>What \<open>open_sub\<close> does between two codes.\<close>

lemma open_sub_step:
  assumes inv: "loop_inv type lens root N k t" and args: "table_args type lens root N"
    and k: "Suc k < length (symbols lens)"
    and tab: "length tab = N" "table_inv type lens root (Suc k) (t\<lparr>t_table := tab\<rparr>)"
    and keep: "root < code_len lens k \<longrightarrow>
      tab ! (huff_code lens k mod 2 ^ root) = t_table t ! (huff_code lens k mod 2 ^ root)"
  shows "open_sub type root (code_len lens (length (symbols lens) - 1)) (stepped lens k tab t) = Some None \<and>
      type \<noteq> CODES \<or>
    (\<exists>t'. open_sub type root (code_len lens (length (symbols lens) - 1)) (stepped lens k tab t) = Some (Some t') \<and>
       loop_inv type lens root N (Suc k) t')"
proof -
  let ?s = "stepped lens k tab t" and ?p = "huff_code lens (Suc k) mod 2 ^ root"
  let ?l = "code_len lens (Suc k)" and ?mx = "code_len lens (length (symbols lens) - 1)"
  have s: "t_huff ?s = huff_code lens (Suc k)" "t_len ?s = ?l" "t_low ?s = t_low t" "t_drop ?s = t_drop t"
      "t_next ?s = t_next t" "t_curr ?s = t_curr t" "t_used ?s = t_used t" "t_table ?s = tab"
    by (simp_all add: stepped_def)
  have k': "k < length (symbols lens)" using k by simp
  from inv have cnt: "length (t_count t) = MAXBITS + 1"
      "\<forall>l. 1 \<le> l \<and> l \<le> MAXBITS \<longrightarrow> t_count t ! l = n_left lens k l"
    by (auto simp: loop_inv_def)
  have cs: "\<And>l. 1 \<le> l \<Longrightarrow> l \<le> MAXBITS \<Longrightarrow> t_count ?s ! l = n_left lens (Suc k) l"
    using counts_step(2) [OF k' cnt] by (simp add: stepped_def)
  from args have r: "1 \<le> root" "root \<le> MAXBITS" "2 ^ root \<le> N" by (simp_all add: table_args_def)
  show ?thesis
  proof (cases "root < ?l \<and> t_low t \<noteq> Some ?p")
    case False
    then have "?l \<le> root \<or> t_low t = Some ?p" by auto
    moreover have "root < code_len lens k" if "t_low t = Some ?p"
      using that inv by (auto simp: loop_inv_def in_root_def)
    ultimately have "?l \<le> root \<or> t_low t = Some ?p \<and>
        tab ! (huff_code lens k mod 2 ^ root) = t_table t ! (huff_code lens k mod 2 ^ root)"
      using keep by auto
    from keep_table [OF inv args k tab this] False show ?thesis
      by (auto simp: open_sub_def s)
  next
    case True
    then have gt: "root < ?l" and new: "t_low t \<noteq> Some ?p" by simp_all
    have nt: "type \<noteq> CODES"
    proof
      assume c: "type = CODES"
      have "?l \<in> set lens" using nth_mem [OF k] by (auto simp: code_len_def set_symbols)
      with c args gt show False by (auto simp: table_args_def)
    qed
    have drop: "(if t_drop ?s = 0 then root else t_drop ?s) = root"
        "t_next ?s + 2 ^ t_curr ?s = t_used t"
      using inv by (auto simp: loop_inv_def in_root_def in_sub_def s)
    have lmx: "?l \<le> ?mx" using k by (intro code_len_mono) auto
    have mxb: "?mx \<le> MAXBITS" using k by (intro code_len_bounds) auto
    have "2 ^ (?l - root) = 2 ^ (?l - root) - 2 * int (span lens (Suc k) (root + (?l - root) - 1))"
      using span_below [OF k, of "?l - 1"] gt r by simp
    moreover have "root + (?l - root) \<le> ?mx" "1 \<le> ?l - root" "(0::int) < 2 ^ (?l - root)"
      using gt lmx by simp_all
    ultimately obtain c where
      c: "sub_bits (t_count ?s) ?mx root (?l - root) (2 ^ (?l - root)) = c" "?l - root \<le> c" "root + c \<le> ?mx"
        "root + c = ?mx \<or> 2 ^ c \<le> span lens (Suc k) (root + c)"
      using sub_bits_spec [OF cs r(1) _ mxb, of "?l - root" "2 ^ (?l - root)"] by blast
    have cb: "1 \<le> c" "root + c \<le> MAXBITS" "?l \<le> root + c" using c(2,3) gt mxb by simp_all
    show ?thesis
    proof (cases "over_enough type (t_used t + 2 ^ c)")
      case True
      with gt new drop c(1) nt show ?thesis by (simp add: open_sub_def s Let_def)
    next
      case False
      with args nt have N: "t_used t + 2 ^ c \<le> N" and small: "t_used t + 2 ^ c < 65536"
        by (cases type; simp add: over_enough_def table_args_def ENOUGH_LENS_def ENOUGH_DISTS_def)+
      have "?p < length tab" using r(3) tab(1) by (intro less_le_trans [OF mod_less_divisor]) simp_all
      then have "open_sub type root ?mx ?s = Some (Some (opened lens root (Suc k) c ?s))"
        using gt new drop c(1) nt False small cb r(2)
        by (simp add: open_sub_def s Let_def array_simps opened_def MAXBITS_def)
      with open_table [OF inv args k tab gt new cb c(4) N] show ?thesis by blast
    qed
  qed
qed

definition table_done :: "codetype \<Rightarrow> nat list \<Rightarrow> nat \<Rightarrow> nat \<Rightarrow> tstate \<Rightarrow> bool" where
  "table_done type lens root N t \<longleftrightarrow>
     length (t_table t) = N \<and> table_inv type lens root (length (symbols lens)) t \<and>
     t_huff t = huff_code lens (length (symbols lens)) \<and>
     t_len t = code_len lens (length (symbols lens) - 1) \<and> 2 ^ root \<le> t_used t \<and> t_used t \<le> N \<and>
     t_next t + 2 ^ t_curr t = t_used t \<and> t_drop t \<le> t_len t \<and>
     (t_len t \<le> root \<longrightarrow> in_root root t)"

lemma fill_step:
  assumes inv: "loop_inv type lens root N k t" and args: "table_args type lens root N"
    and work: "take (length (symbols lens)) work = symbols lens"
    and L: "\<forall>s < length lens. rd L s = Some (lens ! s)"
    and mx: "mx = code_len lens (length (symbols lens) - 1)"
  shows "(fill_tables type L work root mx t = Some None \<and> type \<noteq> CODES) \<or>
    (\<exists>t'. Suc k = length (symbols lens) \<and> fill_tables type L work root mx t = Some (Some t') \<and>
       table_done type lens root N t') \<or>
    (\<exists>t'. Suc k < length (symbols lens) \<and> loop_inv type lens root N (Suc k) t' \<and>
       fill_tables type L work root mx t = fill_tables type L work root mx t')"
proof -
  let ?n = "length (symbols lens)" and ?l = "code_len lens k"
  from inv have k: "k < ?n" and t: "t_sym t = k" "t_len t = ?l" and
    cnt: "length (t_count t) = MAXBITS + 1" "\<forall>l. 1 \<le> l \<and> l \<le> MAXBITS \<longrightarrow> t_count t ! l = n_left lens k l"
    by (auto simp: loop_inv_def)
  have wl: "?n \<le> length work" using arg_cong [OF work, of length] by simp
  have wn: "work ! j = symbols lens ! j" if "j < ?n" for j using nth_take [OF that, of work] work by simp
  note cs = counts_step(1) [OF k cnt]
  let ?c = "n_left lens (Suc k) ?l"
  have lb: "?l < length (t_count t)" using code_len_bounds [OF k] cnt(1) by simp
  obtain tab where pc: "put_code type work t = Some (t\<lparr>t_table := tab, t_huff := huff_code lens (Suc k)\<rparr>)"
      and tab: "length tab = N" "table_inv type lens root (Suc k) (t\<lparr>t_table := tab\<rparr>)"
      and keep: "root < ?l \<longrightarrow> tab ! (huff_code lens k mod 2 ^ root) = t_table t ! (huff_code lens k mod 2 ^ root)"
    using put_code_root [OF inv args, of work] put_code_sub [OF inv args, of work] k wl wn [OF k]
    by (cases "?l \<le> root") (auto simp: not_le)
  show ?thesis
  proof (cases "Suc k = ?n")
    case True
    let ?t = "t\<lparr>t_table := tab, t_huff := huff_code lens (Suc k), t_sym := k + 1,
      t_count := (t_count t)[?l := ?c]\<rparr>"
    have "?c = 0 \<and> ?l = mx" unfolding mx using last_code_iff [OF k] True by blast
    then have z: "?c = 0" "?l = mx" by blast+
    have "fill_tables type L work root mx t = Some (Some ?t)"
      using k wl t pc cs lb z by (subst fill_tables.simps) (simp add: array_simps)
    moreover have "table_done type lens root N ?t"
    proof -
      have "table_inv type lens root (Suc k) ?t"
        by (rule table_inv_cong [THEN iffD1, OF _ _ _ _ tab(2)]) simp_all
      moreover have "2 ^ root \<le> N" using args by (simp add: table_args_def)
      moreover have "k = ?n - 1" using True by simp
      ultimately show ?thesis using inv True tab(1)
        by (auto simp: table_done_def loop_inv_def in_root_def in_sub_def)
    qed
    ultimately show ?thesis using True by blast
  next
    case False
    then have sk: "Suc k < ?n" using k by simp
    have nz: "\<not> (?c = 0 \<and> ?l = mx)" using last_code_iff [OF k] False mx by blast
    have len: "(if ?c = 0 then rd work (k + 1) \<bind> rd L else Some ?l) = Some (code_len lens (Suc k))"
      using next_len [OF sk] sk wl wn [OF sk] nth_mem [OF sk] L
      by (auto simp: array_simps code_len_def set_symbols)
    have "fill_tables type L work root mx t =
        (open_sub type root mx (stepped lens k tab t) \<bind>
          (\<lambda>r. case r of None \<Rightarrow> Some None | Some t \<Rightarrow> fill_tables type L work root mx t))"
      using k wl t pc cs lb nz len
      by (subst fill_tables.simps) (auto simp: array_simps stepped_def Let_def cong: if_cong split del: if_split)
    with open_sub_step [OF inv args sk tab keep] sk mx show ?thesis by auto
  qed
qed

lemma fill_tables_done:
  assumes "loop_inv type lens root N k t" "table_args type lens root N"
    and "take (length (symbols lens)) work = symbols lens"
    and "\<forall>s < length lens. rd L s = Some (lens ! s)"
    and "mx = code_len lens (length (symbols lens) - 1)"
  shows "(fill_tables type L work root mx t = Some None \<and> type \<noteq> CODES) \<or>
    (\<exists>t'. fill_tables type L work root mx t = Some (Some t') \<and> table_done type lens root N t')"
  using assms(1)
proof (induction "length (symbols lens) - k" arbitrary: k t)
  case 0
  then show ?case by (simp add: loop_inv_def)
next
  case (Suc d)
  from fill_step [OF Suc.prems assms(2-5)] Suc.hyps show ?case
    by (elim disjE exE conjE) (auto dest!: Suc.hyps(1) [rotated])
qed


section \<open>The check of the lengths\<close>

lemma counts_n_left: "1 \<le> l \<Longrightarrow> l \<le> MAXBITS \<Longrightarrow> counts lens ! l = n_left lens 0 l"
  by (simp add: counts_nth n_left_0)

lemma n_left_0_iff: "n_left lens 0 l = 0 \<longleftrightarrow> (\<forall>k < length (symbols lens). code_len lens k \<noteq> l)"
  by (auto simp: n_left_def filter_empty_conv)

lemma span_full: "span lens 0 MAXBITS = kraft lens"
proof -
  have "{j. 0 \<le> j \<and> j < length (symbols lens) \<and> code_len lens j \<le> MAXBITS} = {..<length (symbols lens)}"
    using code_len_bounds by auto
  then show ?thesis by (simp only: span_def kraft_def gpos_def)
qed

lemma span_0: "span lens 0 0 = 0"
proof -
  have "{j. 0 \<le> j \<and> j < length (symbols lens) \<and> code_len lens j \<le> 0} = {}"
    using code_len_bounds by fastforce
  then show ?thesis by (simp only: span_def sum.empty)
qed

lemma span_grows: "2 ^ m < span lens 0 m \<Longrightarrow> 2 ^ (m + d) < span lens 0 (m + d)"
  by (induction d) (auto simp: span_Suc)

lemma code_space_from:
  assumes "m \<le> MAXBITS" "span lens 0 m \<le> 2 ^ m"
  shows "code_space (2 ^ m - int (span lens 0 m)) (drop m (tl (counts lens))) =
    (if kraft lens \<le> 2 ^ MAXBITS then Some (2 ^ MAXBITS - int (kraft lens)) else None)"
  using assms
proof (induction "MAXBITS - m" arbitrary: m)
  case 0
  then have "m = MAXBITS" by simp
  with 0 show ?case using span_full [of lens] by simp
next
  case (Suc d)
  then have m: "m < MAXBITS" by simp
  then have dr: "drop m (tl (counts lens)) = counts lens ! Suc m # drop (Suc m) (tl (counts lens))"
    by (simp add: nth_tl Cons_nth_drop_Suc [symmetric])
  have left: "2 * (2 ^ m - int (span lens 0 m)) - int (counts lens ! Suc m) =
      2 ^ Suc m - int (span lens 0 (Suc m))"
    using m by (simp add: span_Suc counts_n_left)
  show ?case
  proof (cases "span lens 0 (Suc m) \<le> 2 ^ Suc m")
    case True
    then have "\<not> 2 ^ Suc m - int (span lens 0 (Suc m)) < 0"
      by (metis (no_types) diff_ge_0_iff_ge not_less of_nat_le_iff of_nat_numeral of_nat_power)
    then show ?thesis
      using Suc.hyps(1) [of "Suc m"] Suc.hyps(2) m True dr left by (simp add: Let_def del: power_Suc)
  next
    case False
    then have neg: "2 ^ Suc m - int (span lens 0 (Suc m)) < 0"
      by (metis (no_types) diff_ge_0_iff_ge not_less of_nat_le_iff of_nat_numeral of_nat_power)
    have "2 ^ (Suc m + (MAXBITS - Suc m)) < span lens 0 (Suc m + (MAXBITS - Suc m))"
      by (rule span_grows) (use False in simp)
    then have "\<not> kraft lens \<le> 2 ^ MAXBITS" using m span_full [of lens] by simp
    with neg dr left show ?thesis by (simp add: Let_def del: power_Suc)
  qed
qed

lemma code_space_eq:
  "code_space 1 (tl (counts lens)) =
    (if kraft lens \<le> 2 ^ MAXBITS then Some (2 ^ MAXBITS - int (kraft lens)) else None)"
  using code_space_from [of 0 lens] by (simp add: span_0)

lemma find_max_eq:
  assumes "count ! x \<noteq> 0" "1 \<le> x" "x \<le> m" "\<And>l. x < l \<Longrightarrow> l \<le> m \<Longrightarrow> count ! l = 0"
  shows "find_max count m = x"
  using assms(3,4) by (induction m) (use assms(1,2) in \<open>auto simp: le_Suc_eq\<close>)

lemma find_max_0: "\<forall>l. 1 \<le> l \<and> l \<le> m \<longrightarrow> count ! l = 0 \<Longrightarrow> find_max count m = 0"
  by (induction m) auto

lemma find_min_eq:
  assumes "count ! x \<noteq> 0" "x \<le> mx" "a \<le> x" "\<And>l. a \<le> l \<Longrightarrow> l < x \<Longrightarrow> count ! l = 0"
  shows "find_min count a mx = x"
  using assms(3,4)
proof (induction "x - a" arbitrary: a)
  case 0
  then show ?case using assms(1) by (subst find_min.simps) simp
next
  case (Suc d)
  then show ?case using assms(2) Suc.hyps(1) [of "a + 1"] by (subst find_min.simps) simp
qed

definition longest :: "nat list \<Rightarrow> nat" where
  "longest lens = (if symbols lens = [] then 0 else code_len lens (length (symbols lens) - 1))"

definition shortest :: "nat list \<Rightarrow> nat" where
  "shortest lens = code_len lens 0"

lemma find_max_counts: "find_max (counts lens) MAXBITS = longest lens"
proof (cases "symbols lens = []")
  case True
  then show ?thesis by (simp add: longest_def find_max_0 counts_n_left n_left_def)
next
  case False
  then have k: "length (symbols lens) - 1 < length (symbols lens)" by simp
  note b = code_len_bounds [OF k]
  have "counts lens ! code_len lens (length (symbols lens) - 1) \<noteq> 0"
    using b k n_left_0_iff [of lens] by (auto simp: counts_n_left)
  moreover have "counts lens ! l = 0"
    if l: "code_len lens (length (symbols lens) - 1) < l" "l \<le> MAXBITS" for l
  proof -
    have "code_len lens j \<noteq> l" if "j < length (symbols lens)" for j
    proof -
      have "code_len lens j \<le> code_len lens (length (symbols lens) - 1)"
        using that by (intro code_len_mono) auto
      with l show ?thesis by simp
    qed
    then show ?thesis using l b n_left_0_iff [of lens l] by (simp add: counts_n_left)
  qed
  ultimately show ?thesis using find_max_eq b False by (simp add: longest_def)
qed

lemma find_min_counts:
  assumes "symbols lens \<noteq> []"
  shows "find_min (counts lens) 1 (longest lens) = shortest lens"
proof -
  from assms have k: "0 < length (symbols lens)" by simp
  note b = code_len_bounds [OF k]
  have "counts lens ! code_len lens 0 \<noteq> 0"
    using b k n_left_0_iff [of lens "code_len lens 0"] by (auto simp: counts_n_left)
  moreover have "counts lens ! l = 0" if l: "1 \<le> l" "l < code_len lens 0" for l
  proof -
    have "code_len lens j \<noteq> l" if "j < length (symbols lens)" for j
      using code_len_mono [of 0 j lens] that l by auto
    then show ?thesis using l b n_left_0_iff [of lens l] by (simp add: counts_n_left)
  qed
  moreover have "code_len lens 0 \<le> longest lens"
    using assms by (simp add: longest_def code_len_mono)
  ultimately show ?thesis using find_min_eq b by (simp add: shortest_def)
qed


section \<open>The result\<close>

text \<open>What \<open>inflate_table\<close> needs of its arguments: lengths of at most \<open>MAXBITS\<close>, no more
  symbols than the type has, room for the sorted symbols and for the tables.\<close>

definition table_request :: "codetype \<Rightarrow> nat list \<Rightarrow> nat \<Rightarrow> nat \<Rightarrow> nat \<Rightarrow> nat \<Rightarrow> bool" where
  "table_request type lens codes N request nwork \<longleftrightarrow>
     codes \<le> length lens \<and> codes \<le> max_symbols type \<and> codes \<le> nwork \<and>
     (\<forall>l \<in> set (take codes lens). l \<le> MAXBITS) \<and> 1 \<le> request \<and> request \<le> MAXBITS \<and>
     (case type of
        CODES \<Rightarrow> 2 ^ request \<le> N \<and> (\<forall>l \<in> set (take codes lens). l \<le> request)
      | LENS \<Rightarrow> ENOUGH_LENS \<le> N
      | DISTS \<Rightarrow> ENOUGH_DISTS \<le> N)"

definition root_bits :: "nat list \<Rightarrow> nat \<Rightarrow> nat" where
  "root_bits lens request =
     (if symbols lens = [] then 1 else max (min request (longest lens)) (shortest lens))"

text \<open>Which sets of lengths are refused: those that need more than the code space, and those
  that leave some of it unless they are a single code of one bit.\<close>

definition bad_lengths :: "codetype \<Rightarrow> nat list \<Rightarrow> bool" where
  "bad_lengths type lens \<longleftrightarrow> symbols lens \<noteq> [] \<and>
     (2 ^ MAXBITS < kraft lens \<or> kraft lens < 2 ^ MAXBITS \<and> (type = CODES \<or> longest lens \<noteq> 1))"

text \<open>What the tables say of a window: a symbol whose code it starts with, or an invalid code
  where no symbol has one.\<close>

definition table_meaning :: "codetype \<Rightarrow> nat list \<Rightarrow> code list \<Rightarrow> nat \<Rightarrow> nat \<Rightarrow> bool" where
  "table_meaning type lens tab root used \<longleftrightarrow> 1 \<le> root \<and> root \<le> MAXBITS \<and> 2 ^ root \<le> used \<and>
     (\<forall>w < 2 ^ MAXBITS.
        (\<exists>j < length (symbols lens). w mod 2 ^ code_len lens j = huff_code lens j \<and>
           decodes type lens tab root used w j) \<or>
        kraft lens \<le> revb MAXBITS w \<and> tab ! (w mod 2 ^ root) = invalid_code 1)"

lemma length_symbols_le: "length (symbols lens) \<le> length lens"
proof -
  have "card (set (symbols lens)) \<le> card {..<length lens}"
    by (rule card_mono) (auto simp: set_symbols)
  then show ?thesis by (simp add: distinct_card distinct_symbols)
qed

lemma empty_symbols_kraft: "symbols lens = [] \<Longrightarrow> kraft lens = 0"
  by (simp add: kraft_def)

lemma meaning_done:
  assumes fin: "table_done type lens root N t" and kr: "kraft lens \<le> 2 ^ MAXBITS"
    and sy: "length lens \<le> max_symbols type" and w: "w < 2 ^ MAXBITS" "revb MAXBITS w < kraft lens"
  shows "\<exists>j < length (symbols lens). w mod 2 ^ code_len lens j = huff_code lens j \<and>
    decodes type lens (t_table t) root (t_used t) w j"
proof -
  from fin have le: "t_next t \<le> t_used t" by (auto simp: table_done_def)
  from fin have "table_inv type lens root (length (symbols lens)) t" by (simp add: table_done_def)
  with w obtain j where j: "j < length (symbols lens)" "gpos lens j \<le> revb MAXBITS w"
      "revb MAXBITS w < gpos lens (Suc j)"
      "decodes type lens (t_table t) root (if t_low t = Some (w mod 2 ^ root) then t_used t else t_next t) w j"
    unfolding table_inv_def kraft_def by blast
  have "decodes type lens (t_table t) root (t_used t) w j"
    by (rule decodes_mono [OF j(4)]) (use le in simp)
  with window_k [OF j(1) kr w(1)] j show ?thesis by blast
qed

lemma table_meaning_lookup:
  assumes "table_meaning type lens tab root used" "length lens \<le> max_symbols type" "w < 2 ^ MAXBITS"
  shows "(\<exists>j < length (symbols lens). w mod 2 ^ code_len lens j = huff_code lens j \<and>
      lookup tab root w = (fst (sym_value type (symbols lens ! j)),
        snd (sym_value type (symbols lens ! j)), code_len lens j)) \<or>
    kraft lens \<le> revb MAXBITS w \<and> lookup tab root w = (64, 0, 1)"
proof -
  from assms consider (a) j where "j < length (symbols lens)" "w mod 2 ^ code_len lens j = huff_code lens j"
      "decodes type lens tab root used w j" |
    (b) "kraft lens \<le> revb MAXBITS w" "tab ! (w mod 2 ^ root) = invalid_code 1"
    unfolding table_meaning_def by blast
  then show ?thesis
  proof cases
    case a
    with decodes_lookup [OF a(3) symbol_bound [OF a(1) assms(2)]] show ?thesis by blast
  next
    case b
    then show ?thesis by (simp add: lookup_def is_link_def invalid_code_def Let_def)
  qed
qed

lemma table_inv_0: "table_inv type lens root 0 t"
  by (simp add: table_inv_def)

lemma huff_code_0: "huff_code lens 0 = 0"
  by (simp add: huff_code_def)

text \<open>The state the loop starts in.\<close>

lemma loop_inv_start:
  assumes "symbols lens \<noteq> []" "length table = N" "shortest lens \<le> root"
  shows "loop_inv type lens root N 0
    \<lparr>t_huff = 0, t_sym = 0, t_len = shortest lens, t_next = 0, t_curr = root, t_drop = 0,
     t_low = None, t_used = 2 ^ root, t_count = counts lens, t_table = table\<rparr>"
  using assms
  by (simp add: loop_inv_def shortest_def huff_code_0 table_inv_0 counts_n_left in_root_def)

lemma revb_pow: "revb n (2 ^ n) = 0"
  by (rule bit_eqI) (auto simp: bit_revb bit_exp_iff)

lemma one_code:
  assumes "kraft lens < 2 ^ MAXBITS" "longest lens = 1"
  shows "length (symbols lens) = 1" "kraft lens = 2 ^ (MAXBITS - 1)"
proof -
  from assms(2) have ne: "symbols lens \<noteq> []" and l: "code_len lens (length (symbols lens) - 1) = 1"
    by (auto simp: longest_def split: if_splits)
  have "code_len lens j = 1" if "j < length (symbols lens)" for j
    using code_len_mono [of j "length (symbols lens) - 1" lens] code_len_bounds [OF that] that l by linarith
  then have "kraft lens = length (symbols lens) * 2 ^ (MAXBITS - 1)"
    by (simp add: kraft_def gpos_def)
  with assms(1) ne show "length (symbols lens) = 1" "kraft lens = 2 ^ (MAXBITS - 1)"
    by (cases "symbols lens"; cases "tl (symbols lens)"; simp add: MAXBITS_def)+
qed


text \<open>The end of the function: the loop has filled the tables for all the codes, and an
  incomplete code has an invalid entry for the other value of its bit.\<close>

definition finish_table :: "tstate \<Rightarrow> code list option" where
  "finish_table t =
    (if t_huff t \<noteq> 0 then wr (t_table t) (t_next t + t_huff t) (invalid_code (t_len t - t_drop t))
     else Some (t_table t))"

lemma finish_table_meaning:
  assumes fin: "table_done type lens root N t" and kr: "kraft lens \<le> 2 ^ MAXBITS"
    and sy: "length lens \<le> max_symbols type" and root: "1 \<le> root" "root \<le> MAXBITS" "2 ^ root \<le> N"
    and inc: "kraft lens < 2 ^ MAXBITS \<Longrightarrow> longest lens = 1 \<and> root = 1" and ne: "symbols lens \<noteq> []"
  shows "\<exists>tab. finish_table t = Some tab \<and> length tab = N \<and> table_meaning type lens tab root (t_used t)"
proof (cases "kraft lens = 2 ^ MAXBITS")
  case True
  then have "t_huff t = 0"
    using fin by (simp add: table_done_def huff_code_def kraft_def revb_pow)
  moreover have "revb MAXBITS w < kraft lens" for w :: nat using True revb_less by simp
  ultimately show ?thesis
    using fin meaning_done [OF fin kr sy] root
    by (auto simp: finish_table_def table_meaning_def table_done_def)
next
  case False
  with kr have lt: "kraft lens < 2 ^ MAXBITS" by simp
  note one = one_code [OF lt] and inc = inc [OF lt]
  then have n: "length (symbols lens) = 1" and k: "kraft lens = 2 ^ (MAXBITS - 1)" by simp_all
  have "code_len lens 0 = 1" using inc n ne by (simp add: longest_def)
  moreover have h: "t_huff t = 1"
  proof -
    have "t_huff t = revb MAXBITS (2 ^ (MAXBITS - 1) * 1)"
      using fin n k by (simp add: table_done_def huff_code_def kraft_def)
    also have "\<dots> = revb 1 1" by (rule revb_shift) (simp add: MAXBITS_def)
    also have "\<dots> = 1" by (simp add: revb_def bit_0)
    finally show ?thesis .
  qed
  ultimately have t: "t_next t = 0" "t_len t - t_drop t = 1" "1 < length (t_table t)" "length (t_table t) = N"
    using fin inc n root by (auto simp: table_done_def in_root_def)
  let ?tab = "(t_table t)[1 := invalid_code 1]"
  have used: "2 ^ root \<le> t_used t" using fin by (simp add: table_done_def)
  have "(\<exists>j < length (symbols lens). w mod 2 ^ code_len lens j = huff_code lens j \<and>
        decodes type lens ?tab root (t_used t) w j) \<or>
      kraft lens \<le> revb MAXBITS w \<and> ?tab ! (w mod 2 ^ root) = invalid_code 1"
    if w: "w < 2 ^ MAXBITS" for w
  proof -
    have top: "w mod 2 ^ 1 = revb MAXBITS 0 \<longleftrightarrow> revb MAXBITS w div 2 ^ (MAXBITS - 1) = 0"
      by (subst window_prefix_iff) (simp_all add: MAXBITS_def)
    show ?thesis
    proof (cases "w mod 2 = 0")
      case True
      with top have lt: "revb MAXBITS w < kraft lens" by (simp add: k div_eq_0_iff)
      from meaning_done [OF fin kr sy w lt] n have "w mod 2 ^ code_len lens 0 = huff_code lens 0"
        "decodes type lens (t_table t) root (t_used t) w 0" by auto
      with True inc \<open>code_len lens 0 = 1\<close> n have "w mod 2 ^ code_len lens 0 = huff_code lens 0"
        "decodes type lens ?tab root (t_used t) w 0" by (auto simp: decodes_def)
      with n show ?thesis by auto
    next
      case False
      with top have "kraft lens \<le> revb MAXBITS w" by (simp add: k div_eq_0_iff)
      moreover have "?tab ! (w mod 2 ^ root) = invalid_code 1" using False inc t(3) by simp
      ultimately show ?thesis by blast
    qed
  qed
  with root used have "table_meaning type lens ?tab root (t_used t)" by (simp add: table_meaning_def)
  with h t show ?thesis by (simp add: finish_table_def array_simps)
qed

lemma inflate_table_empty:
  assumes req: "table_request type lens codes (length table) request (length work)"
    and e: "symbols (take codes lens) = []"
  shows "\<exists>tab. inflate_table type lens codes table request work =
      Some (Built tab 2 (root_bits (take codes lens) request)) \<and>
    length tab = length table \<and> 2 \<le> length table \<and>
    table_meaning type (take codes lens) tab (root_bits (take codes lens) request) 2"
proof -
  have "(2::nat) ^ 1 \<le> 2 ^ request"
    using req by (intro power_increasing) (simp_all add: table_request_def)
  with req have N: "2 \<le> length table"
    by (cases type) (auto simp: table_request_def ENOUGH_LENS_def ENOUGH_DISTS_def)
  then have "0 < length table" by linarith
  let ?tab = "table[0 := invalid_code 1, 1 := invalid_code 1]"
  have "?tab ! (w mod 2) = invalid_code 1" for w
  proof (cases "w mod 2 = 0")
    case True
    with \<open>0 < length table\<close> show ?thesis by simp
  next
    case False
    with N show ?thesis by simp
  qed
  then have "table_meaning type (take codes lens) ?tab 1 2"
    by (simp add: table_meaning_def e empty_symbols_kraft MAXBITS_def)
  moreover have "inflate_table type lens codes table request work = Some (Built ?tab 2 1)"
    using req e N \<open>0 < length table\<close> count_lens_eq [of "take codes lens"] find_max_counts [of "take codes lens"]
    by (simp add: inflate_table_def table_request_def longest_def array_simps)
  ultimately show ?thesis using N e by (simp add: root_bits_def)
qed

text \<open>The function up to the loop.\<close>

lemma inflate_table_unfold:
  assumes req: "table_request type lens codes (length table) request (length work)"
    and lens: "lens' = take codes lens" and ne: "symbols lens' \<noteq> []"
  shows "\<exists>w. take (length (symbols lens')) w = symbols lens' \<and>
    inflate_table type lens codes table request work =
     (if bad_lengths type lens' then Some Invalid
      else if over_enough type (2 ^ root_bits lens' request) then Some Not_enough
      else fill_tables type lens w (root_bits lens' request) (longest lens')
          \<lparr>t_huff = 0, t_sym = 0, t_len = shortest lens', t_next = 0,
           t_curr = root_bits lens' request, t_drop = 0, t_low = None,
           t_used = 2 ^ root_bits lens' request, t_count = counts lens', t_table = table\<rparr> \<bind>
        (\<lambda>r. case r of None \<Rightarrow> Some Not_enough
         | Some t \<Rightarrow> finish_table t \<bind> (\<lambda>tab. Some (Built tab (t_used t) (root_bits lens' request)))))"
proof -
  from req lens have len: "length lens' = codes" "codes \<le> length lens" "\<forall>l \<in> set lens'. l \<le> MAXBITS"
      "length lens' \<le> 65536" "length (symbols lens') \<le> length work"
    using length_symbols_le [of lens'] by (cases type; auto simp: table_request_def)+
  have "sorted_upto lens' 0 work" by (simp add: sorted_upto_def rank_def)
  from sort_symbols_sorts [OF len(4,3,5) _ this, of "map (offset_of lens') [0..<MAXBITS + 1]"]
  obtain w where w: "sort_symbols 0 lens' (map (offset_of lens') [0..<MAXBITS + 1]) work = Some w"
      "length w = length work" "sorted_upto lens' (length lens') w"
    by (auto simp: rank_def nth_append simp del: upt_Suc)
  have pos: "longest lens' \<noteq> 0"
    using ne code_len_bounds(1) [of "length (symbols lens') - 1" lens'] by (auto simp: longest_def)
  have root: "(if min request (longest lens') < shortest lens' then shortest lens'
      else min request (longest lens')) = root_bits lens' request"
    using ne by (auto simp: root_bits_def)
  let ?inc = "kraft lens' < 2 ^ MAXBITS \<and> (type = CODES \<or> longest lens' \<noteq> 1)"
  have bad: "bad_lengths type lens' \<longleftrightarrow> \<not> kraft lens' \<le> 2 ^ MAXBITS \<or> ?inc"
    using ne by (auto simp: bad_lengths_def)
  have "inflate_table type lens codes table request work =
     (if bad_lengths type lens' then Some Invalid
      else if over_enough type (2 ^ root_bits lens' request) then Some Not_enough
      else fill_tables type lens w (root_bits lens' request) (longest lens')
          \<lparr>t_huff = 0, t_sym = 0, t_len = shortest lens', t_next = 0,
           t_curr = root_bits lens' request, t_drop = 0, t_low = None,
           t_used = 2 ^ root_bits lens' request, t_count = counts lens', t_table = table\<rparr> \<bind>
        (\<lambda>r. case r of None \<Rightarrow> Some Not_enough
         | Some t \<Rightarrow> finish_table t \<bind> (\<lambda>tab. Some (Built tab (t_used t) (root_bits lens' request)))))"
    using len(2) pos w(1)
    unfolding inflate_table_def lens [symmetric] bad
    by (cases "kraft lens' \<le> 2 ^ MAXBITS"; cases ?inc)
      (simp_all add: Let_def count_lens_eq [OF len(3)] find_max_counts find_min_counts [OF ne] root
        code_space_eq offs_eq finish_table_def cong: if_cong option.case_cong
        del: upt_Suc One_nat_def replicate_Suc Suc_eq_plus1)
  with sorted_upto_take [OF w(3)] len(5) w(2) show ?thesis by auto
qed


lemma root_bits_args:
  assumes req: "table_request type lens codes N request nw" and lens: "lens' = take codes lens"
    and ne: "symbols lens' \<noteq> []" and ok: "\<not> bad_lengths type lens'"
    and en: "\<not> over_enough type (2 ^ root_bits lens' request)"
  shows "table_args type lens' (root_bits lens' request) N" "shortest lens' \<le> root_bits lens' request"
    and "kraft lens' < 2 ^ MAXBITS \<Longrightarrow> longest lens' = 1 \<and> root_bits lens' request = 1"
proof -
  let ?r = "root_bits lens' request"
  have k: "0 < length (symbols lens')" "length (symbols lens') - 1 < length (symbols lens')" using ne by auto
  note b0 = code_len_bounds [OF k(1)] and b1 = code_len_bounds [OF k(2)]
  have sl: "1 \<le> shortest lens'" "shortest lens' \<le> longest lens'" "longest lens' \<le> MAXBITS"
    using b0 b1 code_len_mono [of 0 "length (symbols lens') - 1" lens'] k ne
    by (simp_all add: shortest_def longest_def)
  have r: "?r = max (min request (longest lens')) (shortest lens')" using ne by (simp add: root_bits_def)
  with sl show short: "shortest lens' \<le> ?r" by simp
  from ok ne have kr: "kraft lens' \<le> 2 ^ MAXBITS" by (simp add: bad_lengths_def)
  from r sl have rb: "1 \<le> ?r" "?r \<le> MAXBITS" by simp_all
  have len: "length lens' \<le> max_symbols type" "\<forall>l \<in> set lens'. l \<le> MAXBITS"
    using req lens by (auto simp: table_request_def)
  show "kraft lens' < 2 ^ MAXBITS \<Longrightarrow> longest lens' = 1 \<and> ?r = 1"
  proof -
    assume lt: "kraft lens' < 2 ^ MAXBITS"
    with ok ne have "longest lens' = 1" by (simp add: bad_lengths_def)
    with r sl show ?thesis by simp
  qed
  show "table_args type lens' ?r N"
  proof (cases "type = CODES")
    case True
    with req lens have c: "2 ^ request \<le> N" "\<forall>l \<in> set lens'. l \<le> request"
      by (simp_all add: table_request_def)
    have all: "l \<le> longest lens'" if "l \<in> set lens'" for l
    proof (cases "l = 0")
      case False
      from that obtain s where s: "s < length lens'" "lens' ! s = l" by (auto simp: in_set_conv_nth)
      with False len(2) that have "s \<in> set (symbols lens')" by (auto simp: set_symbols)
      then obtain j where j: "j < length (symbols lens')" "symbols lens' ! j = s" by (auto simp: in_set_conv_nth)
      then have "code_len lens' j \<le> code_len lens' (length (symbols lens') - 1)"
        by (intro code_len_mono) auto
      with j s ne show ?thesis by (simp add: code_len_def longest_def)
    qed simp
    have "code_len lens' 0 \<in> set lens'" using nth_mem [OF k(1)] by (auto simp: code_len_def set_symbols)
    with c(2) have "shortest lens' \<le> request" by (simp add: shortest_def)
    then have "?r \<le> request" using r by simp
    then have "(2::nat) ^ ?r \<le> 2 ^ request" by (rule power_increasing) simp
    with c(1) have "2 ^ ?r \<le> N" by (rule le_trans [rotated])
    moreover have "\<forall>l \<in> set lens'. l \<le> ?r" using all c(2) r by fastforce
    ultimately show ?thesis using True rb len kr by (simp add: table_args_def)
  next
    case False
    with req en rb len kr show ?thesis
      by (cases type) (auto simp: table_args_def table_request_def over_enough_def)
  qed
qed

lemma inflate_table_cases:
  assumes req: "table_request type lens codes (length table) request (length work)"
    and lens: "lens' = take codes lens"
  shows "if bad_lengths type lens' then inflate_table type lens codes table request work = Some Invalid else
      inflate_table type lens codes table request work = Some Not_enough \<and> type \<noteq> CODES \<or>
      (\<exists>tab used. inflate_table type lens codes table request work =
          Some (Built tab used (root_bits lens' request)) \<and>
         length tab = length table \<and> used \<le> length table \<and>
         table_meaning type lens' tab (root_bits lens' request) used)"
proof (cases "symbols lens' = []")
  case True
  with inflate_table_empty [OF req] lens show ?thesis by (auto simp: bad_lengths_def)
next
  case ne: False
  let ?r = "root_bits lens' request"
  from inflate_table_unfold [OF req lens ne] obtain w where
    w: "take (length (symbols lens')) w = symbols lens'" and
    eq: "inflate_table type lens codes table request work =
     (if bad_lengths type lens' then Some Invalid
      else if over_enough type (2 ^ ?r) then Some Not_enough
      else fill_tables type lens w ?r (longest lens')
          \<lparr>t_huff = 0, t_sym = 0, t_len = shortest lens', t_next = 0,
           t_curr = ?r, t_drop = 0, t_low = None,
           t_used = 2 ^ ?r, t_count = counts lens', t_table = table\<rparr> \<bind>
        (\<lambda>r. case r of None \<Rightarrow> Some Not_enough
         | Some t \<Rightarrow> finish_table t \<bind> (\<lambda>tab. Some (Built tab (t_used t) ?r))))"
    by blast
  show ?thesis
  proof (cases "bad_lengths type lens' \<or> over_enough type (2 ^ ?r)")
    case True
    then show ?thesis using eq by (auto simp: over_enough_def)
  next
    case False
    then have ok: "\<not> bad_lengths type lens'" and en: "\<not> over_enough type (2 ^ ?r)" by auto
    note args = root_bits_args [OF req lens ne ok en]
    have L: "\<forall>s < length lens'. rd lens s = Some (lens' ! s)"
      using req lens by (auto simp: table_request_def array_simps)
    have mx: "longest lens' = code_len lens' (length (symbols lens') - 1)"
      using ne by (simp add: longest_def)
    from fill_tables_done [OF loop_inv_start [OF ne refl args(2)] args(1) w L mx]
    consider (a) "inflate_table type lens codes table request work = Some Not_enough" "type \<noteq> CODES" |
      (b) t where "inflate_table type lens codes table request work =
          finish_table t \<bind> (\<lambda>tab. Some (Built tab (t_used t) ?r))"
        "table_done type lens' ?r (length table) t"
      using eq ok en by auto
    then show ?thesis
    proof cases
      case a
      with ok show ?thesis by simp
    next
      case b
      have "kraft lens' \<le> 2 ^ MAXBITS" "length lens' \<le> max_symbols type" "1 \<le> ?r" "?r \<le> MAXBITS"
          "2 ^ ?r \<le> length table"
        using args(1) by (simp_all add: table_args_def)
      from finish_table_meaning [OF b(2) this args(3) ne] obtain tab where
        "finish_table t = Some tab" "length tab = length table" "table_meaning type lens' tab ?r (t_used t)"
        by blast
      with b ok show ?thesis by (auto simp: table_done_def)
    qed
  qed
qed


section \<open>Properties\<close>

text \<open>The code of a symbol, first bit lowest.\<close>

definition code_of :: "nat list \<Rightarrow> nat \<Rightarrow> nat" where
  "code_of lens s = huff_code lens (length (takeWhile (\<lambda>x. x \<noteq> s) (symbols lens)))"

lemma code_of_index:
  assumes "s < length lens" "lens ! s \<noteq> 0" "lens ! s \<le> MAXBITS"
  shows "\<exists>k < length (symbols lens). symbols lens ! k = s \<and> code_len lens k = lens ! s \<and>
    code_of lens s = huff_code lens k"
proof -
  let ?k = "length (takeWhile (\<lambda>x. x \<noteq> s) (symbols lens))"
  have "s \<in> set (symbols lens)" using assms by (simp add: set_symbols)
  then have "takeWhile (\<lambda>x. x \<noteq> s) (symbols lens) \<noteq> symbols lens" by auto
  then have lt: "?k < length (symbols lens)"
    by (metis length_takeWhile_le le_neq_implies_less takeWhile_eq_take take_all_iff order_refl)
  with nth_length_takeWhile [OF lt] show ?thesis
    by (intro exI [of _ ?k]) (simp add: code_len_def code_of_def)
qed

text \<open>No window starts with two codes.\<close>

lemma code_unique:
  assumes "j < length (symbols lens)" "k < length (symbols lens)" "kraft lens \<le> 2 ^ MAXBITS" "w < 2 ^ MAXBITS"
    and "w mod 2 ^ code_len lens j = huff_code lens j" "w mod 2 ^ code_len lens k = huff_code lens k"
  shows "j = k"
proof -
  note j = window_k [OF assms(1,3,4)] and k = window_k [OF assms(2,3,4)]
  show ?thesis
  proof (rule ccontr)
    assume "j \<noteq> k"
    then consider "Suc j \<le> k" | "Suc k \<le> j" by linarith
    then show False
      using gpos_mono [of "Suc j" k lens] gpos_mono [of "Suc k" j lens] j k assms(5,6)
      by cases linarith+
  qed
qed

lemma code_end_le_kraft:
  assumes "k < length (symbols lens)" "kraft lens \<le> 2 ^ MAXBITS" "w < 2 ^ MAXBITS"
    and "w mod 2 ^ code_len lens k = huff_code lens k"
  shows "revb MAXBITS w < kraft lens"
  using window_k [OF assms(1-3)] assms(4) gpos_le_kraft [of "Suc k" lens] assms(1)
  by (meson Suc_leI less_le_trans)

lemma table_lookup:
  assumes req: "table_request type lens codes (length table) request (length work)"
    and built: "inflate_table type lens codes table request work = Some (Built tab used root)"
    and s: "s < codes" "lens ! s \<noteq> 0" and w: "w < 2 ^ MAXBITS"
    and prefix: "w mod 2 ^ (lens ! s) = code_of (take codes lens) s"
  shows "lookup tab root w = (fst (sym_value type s), snd (sym_value type s), lens ! s)"
proof -
  let ?l = "take codes lens"
  from req have len: "codes \<le> length lens" "\<forall>l \<in> set ?l. l \<le> MAXBITS" by (simp_all add: table_request_def)
  have ls: "?l ! s = lens ! s" "s < length ?l" using s len by simp_all
  then have "?l ! s \<le> MAXBITS" using len(2) nth_mem by metis
  with code_of_index [of s ?l] ls s obtain k where k: "k < length (symbols ?l)" "symbols ?l ! k = s"
      "code_len ?l k = lens ! s" "code_of ?l s = huff_code ?l k"
    by auto
  from inflate_table_cases [OF req refl] built have m: "table_meaning type ?l tab root used" and
    ok: "\<not> bad_lengths type ?l"
    by (auto split: if_splits)
  have sy: "length ?l \<le> max_symbols type" using req by (auto simp: table_request_def)
  from ok k(1) have kr: "kraft ?l \<le> 2 ^ MAXBITS" by (auto simp: bad_lengths_def)
  have p: "w mod 2 ^ code_len ?l k = huff_code ?l k" using prefix k by simp
  from code_end_le_kraft [OF k(1) kr w p] table_meaning_lookup [OF m sy w] obtain j where
    j: "j < length (symbols ?l)" "w mod 2 ^ code_len ?l j = huff_code ?l j"
      "lookup tab root w = (fst (sym_value type (symbols ?l ! j)),
         snd (sym_value type (symbols ?l ! j)), code_len ?l j)"
    by (meson not_le)
  with code_unique [OF j(1) k(1) kr w j(2) p] k show ?thesis by simp
qed



text \<open>C17: with the memory its callers give it, \<open>inflate_table\<close> returns and stays within its arrays
  and the entries given; the table of the code length codes always fits.\<close>

theorem inflate_table_safe:
  assumes "table_request type lens codes (length table) request (length work)"
  shows "\<exists>r. inflate_table type lens codes table request work = Some r \<and>
    (case r of
       Built tab used root \<Rightarrow> length tab = length table \<and> used \<le> length table \<and>
         root = root_bits (take codes lens) request
     | Not_enough \<Rightarrow> type \<noteq> CODES
     | Invalid \<Rightarrow> True)"
  using inflate_table_cases [OF assms refl] by (auto split: if_splits)

theorem inflate_table_safe_witness:
  "\<exists>r. inflate_table CODES [2, 1, 3, 3] 4 (replicate 128 (invalid_code 0)) 7 (replicate 4 0) = Some r \<and>
    (case r of
       Built tab used root \<Rightarrow> length tab = length (replicate 128 (invalid_code 0)) \<and>
         used \<le> length (replicate 128 (invalid_code 0)) \<and> root = root_bits (take 4 [2, 1, 3, 3]) 7
     | Not_enough \<Rightarrow> CODES \<noteq> CODES
     | Invalid \<Rightarrow> True)"
  by (rule inflate_table_safe) (simp add: table_request_def MAXBITS_def)

text \<open>C14: when \<open>inflate_table\<close> builds tables, looking up any 15 bits that start with the code of a
  symbol gives the operation and the value of the symbol and the length of its code.\<close>

theorem inflate_table_decodes:
  assumes "table_request type lens codes (length table) request (length work)"
    and "inflate_table type lens codes table request work = Some (Built tab used root)"
    and "s < codes" "lens ! s \<noteq> 0" and "w < 2 ^ MAXBITS"
    and "w mod 2 ^ (lens ! s) = code_of (take codes lens) s"
  shows "lookup tab root w = (fst (sym_value type s), snd (sym_value type s), lens ! s)"
  using assms by (rule table_lookup)

text \<open>A small table, built by evaluation.\<close>

definition small_table :: "code list" where
  "small_table = [\<lparr>c_op = 0, c_bits = 1, c_val = 1\<rparr>, \<lparr>c_op = 0, c_bits = 2, c_val = 0\<rparr>,
     \<lparr>c_op = 0, c_bits = 1, c_val = 1\<rparr>, \<lparr>c_op = 0, c_bits = 3, c_val = 2\<rparr>,
     \<lparr>c_op = 0, c_bits = 1, c_val = 1\<rparr>, \<lparr>c_op = 0, c_bits = 2, c_val = 0\<rparr>,
     \<lparr>c_op = 0, c_bits = 1, c_val = 1\<rparr>, \<lparr>c_op = 0, c_bits = 3, c_val = 3\<rparr>]"

lemma small_built:
  "inflate_table CODES [2, 1, 3, 3] 4 (replicate 8 (invalid_code 0)) 3 (replicate 4 0) =
    Some (Built small_table 8 3)"
  by code_simp

lemma small_request:
  "table_request CODES [2, 1, 3, 3] 4 (length (replicate 8 (invalid_code 0))) 3 (length (replicate 4 (0::nat)))"
  by (simp add: table_request_def MAXBITS_def)

theorem inflate_table_decodes_witness:
  "lookup small_table 3 5 = (fst (sym_value CODES 0), snd (sym_value CODES 0), [2::nat, 1, 3, 3] ! 0)"
proof (rule inflate_table_decodes [OF small_request small_built])
  show "(5::nat) mod 2 ^ ([2, 1, 3, 3] ! 0) = code_of (take 4 [2, 1, 3, 3]) 0" by code_simp
qed (simp_all add: MAXBITS_def)

text \<open>C15: when the lengths are complete, every 15 bits start with the code of a symbol, and the
  tables find it.\<close>

theorem inflate_table_complete:
  assumes req: "table_request type lens codes (length table) request (length work)"
    and built: "inflate_table type lens codes table request work = Some (Built tab used root)"
    and full: "kraft (take codes lens) = 2 ^ MAXBITS" and w: "w < 2 ^ MAXBITS"
  shows "\<exists>s < codes. lens ! s \<noteq> 0 \<and> w mod 2 ^ (lens ! s) = code_of (take codes lens) s \<and>
    lookup tab root w = (fst (sym_value type s), snd (sym_value type s), lens ! s)"
proof -
  let ?l = "take codes lens"
  from req have len: "codes \<le> length lens" by (simp add: table_request_def)
  from inflate_table_cases [OF req refl] built have m: "table_meaning type ?l tab root used"
    by (auto split: if_splits)
  have sy: "length ?l \<le> max_symbols type" using req by (auto simp: table_request_def)
  have "\<not> kraft ?l \<le> revb MAXBITS w" using full revb_less [of MAXBITS w] by simp
  with table_meaning_lookup [OF m sy w] obtain j where j: "j < length (symbols ?l)" "w mod 2 ^ code_len ?l j = huff_code ?l j"
      "lookup tab root w = (fst (sym_value type (symbols ?l ! j)),
         snd (sym_value type (symbols ?l ! j)), code_len ?l j)"
    by blast
  let ?s = "symbols ?l ! j"
  have s: "?s < length ?l" "?l ! ?s \<noteq> 0" "?l ! ?s \<le> MAXBITS"
    using nth_mem [OF j(1)] by (auto simp: set_symbols)
  then have ls: "?s < codes" "?l ! ?s = lens ! ?s" using len by auto
  from code_of_index [OF s] obtain k where k: "k < length (symbols ?l)" "symbols ?l ! k = ?s"
      "code_of ?l ?s = huff_code ?l k" by blast
  then have "k = j" using j(1) distinct_symbols by (simp add: nth_eq_iff_index_eq)
  with j k ls s show ?thesis by (intro exI [of _ ?s]) (simp add: code_len_def)
qed

theorem inflate_table_complete_witness:
  "\<exists>s < 4. [2::nat, 1, 3, 3] ! s \<noteq> 0 \<and> 6 mod 2 ^ ([2, 1, 3, 3] ! s) = code_of (take 4 [2, 1, 3, 3]) s \<and>
    lookup small_table 3 6 = (fst (sym_value CODES s), snd (sym_value CODES s), [2, 1, 3, 3] ! s)"
proof (rule inflate_table_complete [OF small_request small_built])
  show "kraft (take 4 [2, 1, 3, 3]) = 2 ^ MAXBITS" by code_simp
qed (simp add: MAXBITS_def)

end
