(* ===== verification/Trees_Codes.thy ===== *)
theory Trees_Codes imports Inftables begin

text \<open>
  \<^verbatim>\<open>libz_u/trees.c\<close>: the assignment of codes.  \<open>gen_codes\<close> gives the symbols of a tree the
  canonical codes of their lengths, and \<open>bi_reverse\<close> puts the first bit of a code lowest.  The
  lemmas show that these are the codes the tables of \<open>inflate_table\<close> decode.
\<close>

section \<open>The data\<close>

text \<open>The two unions of \<open>ct_data\<close>: \<open>fc\<close> is \<open>Freq\<close> or \<open>Code\<close>, \<open>dl\<close> is \<open>Dad\<close> or \<open>Len\<close>.\<close>

record ct_data =
  fc :: nat
  dl :: nat

section \<open>Reversing a code\<close>

function bi_rev :: "nat \<Rightarrow> nat \<Rightarrow> nat \<Rightarrow> nat" where
  "bi_rev code len res =
     (let res = res OR (code AND 1); code = code div 2; res = 2 * res mod 2 ^ 32 in
      if len - 1 > 0 then bi_rev code (len - 1) res else res)"
  by pat_completeness auto
termination by (relation "measure (\<lambda>(code, len, res). len)") auto

declare bi_rev.simps [simp del]

definition bi_reverse :: "nat \<Rightarrow> nat \<Rightarrow> nat" where
  "bi_reverse code len = bi_rev code len 0 div 2"

section \<open>The codes\<close>

text \<open>\<open>next_code[bits] = code = (code + bl_count[bits - 1]) << 1\<close>; \<open>next_code[0]\<close> is not set.\<close>

fun next_codes :: "nat \<Rightarrow> nat list \<Rightarrow> nat list" where
  "next_codes code [] = []"
| "next_codes code (c # cs) = (let code = 2 * (code + c) mod 65536 in code # next_codes code cs)"

text \<open>The loop over the symbols, \<open>todo\<close> of them from \<open>n\<close> on.\<close>

fun assign_codes :: "nat list \<Rightarrow> nat \<Rightarrow> nat \<Rightarrow> ct_data list \<Rightarrow> ct_data list option" where
  "assign_codes next n 0 tree = Some tree"
| "assign_codes next n (Suc todo) tree =
     do { e \<leftarrow> rd tree n;
          if dl e = 0 then assign_codes next (n + 1) todo tree
          else do {
            c \<leftarrow> rd next (dl e);
            tree \<leftarrow> wr tree n (e\<lparr>fc := bi_reverse c (dl e) mod 65536\<rparr>);
            assign_codes (next[dl e := (c + 1) mod 65536]) (n + 1) todo tree } }"

definition gen_codes :: "ct_data list \<Rightarrow> nat \<Rightarrow> nat list \<Rightarrow> ct_data list option" where
  "gen_codes tree max_code bl_count =
     assign_codes (0 # next_codes 0 (take 15 bl_count)) 0 (max_code + 1) tree"

section \<open>The reversal\<close>

lemma revb_Suc: "revb (Suc n) w = 2 ^ n * (w mod 2) + revb n (w div 2)"
proof -
  have "bit w (n - i) = bit (w div 2) (n - 1 - i)" if "i < n" for i
    using that bit_Suc [of w "n - 1 - i"] by (simp add: Suc_diff_Suc)
  then have "map (\<lambda>i. bit w (Suc n - 1 - i)) [0..<Suc n] = map (\<lambda>i. bit (w div 2) (n - 1 - i)) [0..<n] @ [odd w]"
    by (simp add: bit_0)
  then show ?thesis
    by (simp only: revb_def horner_sum_append) (simp add: mod_2_eq_odd)
qed

lemma bi_rev_revb:
  assumes "1 \<le> len" "res < 2 ^ k" "k + len \<le> 31"
  shows "bi_rev code len (2 * res) = 2 * (2 ^ len * res + revb len code)"
  using assms
proof (induction len arbitrary: code res k)
  case (Suc len)
  let ?r = "2 * res + code mod 2"
  have "code mod 2 OR 2 * res = code mod 2 + 2 * res"
    using nat_or_push_bit [of "code mod 2" 1 res] by (simp add: push_bit_eq_mult mult.commute)
  then have bit: "2 * res OR (code AND 1) = ?r"
    by (metis add.commute and_one_eq or.commute)
  have "res \<le> 2 ^ k - 1" using Suc.prems by simp
  then have r: "?r < 2 ^ Suc k" using Suc.prems(2) by (simp add: less_Suc_eq_le)
  also have "\<dots> \<le> 2 ^ 31" using Suc.prems by (intro power_increasing) simp_all
  finally have small: "2 * ?r mod 2 ^ 32 = 2 * ?r" by simp
  note rev = revb_Suc [of len code]
  show ?case
  proof (cases "len = 0")
    case True
    then show ?thesis using small rev bit by (subst bi_rev.simps) (simp add: Let_def revb_def)
  next
    case False
    with Suc.IH [of ?r "Suc k" "code div 2"] Suc.prems r rev bit small show ?thesis
      by (subst bi_rev.simps) (simp add: Let_def algebra_simps)
  qed
qed simp

lemma bi_reverse_revb:
  assumes "1 \<le> len" "len \<le> 30"
  shows "bi_reverse code len = revb len code"
  using bi_rev_revb [of len 0 1 code] assms by (simp add: bi_reverse_def)


section \<open>Where the codes of a length start\<close>

lemma gpos_in_len:
  assumes "1 \<le> l" "l \<le> MAXBITS" "i \<le> length (of_len lens l)"
  shows "gpos lens (offset_of lens l + i) = gpos lens (offset_of lens l) + 2 ^ (MAXBITS - l) * i"
  using assms(3)
proof (induction i)
  case (Suc i)
  then have "symbols lens ! (offset_of lens l + i) \<in> set (of_len lens l)"
    using symbols_nth [OF assms(1,2), of i lens] by simp
  then have "code_len lens (offset_of lens l + i) = l" by (simp add: code_len_def set_of_len)
  with Suc show ?case by (simp add: gpos_Suc)
qed simp

lemma gpos_offset: "1 \<le> l \<Longrightarrow> l \<le> MAXBITS \<Longrightarrow>
  gpos lens (offset_of lens l) = 2 ^ (MAXBITS - l) * (2 * span lens 0 (l - 1))"
proof (induction l rule: nat_induct_at_least)
  case base
  then show ?case by (simp add: span_0)
next
  case (Suc l)
  then have "gpos lens (offset_of lens (Suc l)) =
      2 ^ (MAXBITS - l) * (2 * span lens 0 (l - 1) + length (of_len lens l))"
    using gpos_in_len [of l "length (of_len lens l)" lens] by (simp add: offset_of_Suc distrib_left)
  also have "2 * span lens 0 (l - 1) + length (of_len lens l) = span lens 0 l"
    using span_Suc [of lens 0 "l - 1"] n_left_0 [of l lens] Suc by simp
  also have "2 ^ (MAXBITS - l) * span lens 0 l = 2 ^ (MAXBITS - Suc l) * (2 * span lens 0 l)"
    using Suc.prems by (simp add: Suc_diff_Suc [symmetric])
  finally show ?case by simp
qed

text \<open>The code of a symbol: first the codes of shorter lengths, then the smaller symbols of
  its length.\<close>

lemma code_of_rank:
  assumes "s < length lens" "lens ! s \<noteq> 0" "lens ! s \<le> MAXBITS"
  shows "code_of lens s = revb (lens ! s) (2 * span lens 0 (lens ! s - 1) + rank lens s (lens ! s))"
proof -
  let ?l = "lens ! s" and ?k = "offset_of lens (lens ! s) + rank lens s (lens ! s)"
  from code_of_index [OF assms] obtain k where
    k: "k < length (symbols lens)" "symbols lens ! k = s" "code_of lens s = huff_code lens k" by blast
  note r = of_len_rank [OF assms(1) refl]
  have l: "1 \<le> ?l" using assms(2) by simp
  have "symbols lens ! ?k = s" "?k < length (symbols lens)"
    using symbols_nth [OF l assms(3) r(1)] r(2) offset_of_bound [OF l assms(3) r(1)] by simp_all
  with k have "k = ?k" using nth_eq_iff_index_eq [OF distinct_symbols k(1)] by metis
  then have "gpos lens k = 2 ^ (MAXBITS - ?l) * (2 * span lens 0 (?l - 1) + rank lens s ?l)"
    using gpos_in_len [OF l assms(3), of "rank lens s ?l"] r(1) gpos_offset [OF l assms(3)]
    by (simp add: distrib_left)
  with k(3) revb_shift [OF assms(3)] show ?thesis by (simp add: huff_code_def)
qed

lemma span_bound:
  assumes "kraft lens \<le> 2 ^ MAXBITS" "m \<le> MAXBITS"
  shows "span lens 0 m \<le> 2 ^ m"
  using span_grows [of m lens "MAXBITS - m"] span_full [of lens] assms by fastforce

lemma rank_bound:
  assumes "s < length lens" "lens ! s = l" "1 \<le> l" "l \<le> MAXBITS" "kraft lens \<le> 2 ^ MAXBITS"
  shows "2 * span lens 0 (l - 1) + rank lens s l < 2 ^ l"
proof -
  have "rank lens s l < n_left lens 0 l"
    using of_len_rank(1) [OF assms(1,2)] n_left_0 [OF assms(3,4)] by simp
  then have "2 * span lens 0 (l - 1) + rank lens s l < span lens 0 l"
    using span_Suc [of lens 0 "l - 1"] assms(3) by simp
  also have "\<dots> \<le> 2 ^ l" using assms(4,5) by (rule span_bound [rotated])
  finally show ?thesis .
qed

section \<open>The loops of \<open>gen_codes\<close>\<close>

lemma next_codes_span:
  assumes "\<And>l. m \<le> l \<Longrightarrow> l < m + length cs \<Longrightarrow> cs ! (l - m) = (if l = 0 then 0 else n_left lens 0 l)"
    and "m + length cs \<le> MAXBITS" "kraft lens \<le> 2 ^ MAXBITS" "code = (if m = 0 then 0 else 2 * span lens 0 (m - 1))"
  shows "next_codes code cs = map (\<lambda>l. 2 * span lens 0 l) [m..<m + length cs]"
  using assms(1,2,4)
proof (induction cs arbitrary: m code)
  case (Cons c cs)
  have c: "code + c = span lens 0 m"
    using Cons.prems(1) [of m] Cons.prems(3) span_Suc [of lens 0 "m - 1"] by (cases m) (auto simp: span_0)
  have "2 * span lens 0 m \<le> 2 * 2 ^ m" using span_bound [OF assms(3), of m] Cons.prems(2) by simp
  also have "\<dots> \<le> 2 ^ MAXBITS" using Cons.prems(2) power_increasing [of "Suc m" MAXBITS "2::nat"] by simp
  finally have "2 * span lens 0 m mod 65536 = 2 * span lens 0 m" by (simp add: MAXBITS_def)
  moreover have "next_codes (2 * span lens 0 m) cs = map (\<lambda>l. 2 * span lens 0 l) [Suc m..<Suc m + length cs]"
  proof (rule Cons.IH)
    fix l assume "Suc m \<le> l" "l < Suc m + length cs"
    then show "cs ! (l - Suc m) = (if l = 0 then 0 else n_left lens 0 l)"
      using Cons.prems(1) [of l] by (simp add: nth_Cons')
  qed (use Cons.prems in auto)
  ultimately show ?case using c by (simp add: upt_conv_Cons Let_def del: upt_Suc)
qed simp

lemma assign_codes_done:
  assumes lens: "length lens = mc + 1" "\<forall>l \<in> set lens. l \<le> MAXBITS" "kraft lens \<le> 2 ^ MAXBITS"
    and "n + todo = mc + 1" "mc < length tree" "\<forall>s \<le> mc. dl (tree ! s) = lens ! s"
    and "length next = MAXBITS + 1"
    and "\<forall>l. 1 \<le> l \<and> l \<le> MAXBITS \<longrightarrow> next ! l = 2 * span lens 0 (l - 1) + rank lens n l"
  shows "\<exists>t. assign_codes next n todo tree = Some t \<and> length t = length tree \<and>
    (\<forall>s < length tree. t ! s = (if n \<le> s \<and> s \<le> mc \<and> lens ! s \<noteq> 0
        then (tree ! s)\<lparr>fc := code_of lens s\<rparr> else tree ! s))"
  using assms(4-)
proof (induction todo arbitrary: n tree "next")
  case (Suc todo)
  then have n: "n \<le> mc" "n < length tree" "n < length lens" using lens(1) by simp_all
  have ln: "lens ! n \<le> MAXBITS" using lens(2) n by simp
  have dn: "dl (tree ! n) = lens ! n" using Suc.prems n by simp
  show ?case
  proof (cases "lens ! n = 0")
    case True
    have "\<forall>l. 1 \<le> l \<and> l \<le> MAXBITS \<longrightarrow> next ! l = 2 * span lens 0 (l - 1) + rank lens (n + 1) l"
      using Suc.prems(5) True by (simp add: rank_Suc)
    from Suc.IH [of "n + 1" tree "next", OF _ Suc.prems(2-4) this] Suc.prems(1) obtain t where
      "assign_codes next (n + 1) todo tree = Some t" "length t = length tree"
      "\<forall>s < length tree. t ! s = (if n + 1 \<le> s \<and> s \<le> mc \<and> lens ! s \<noteq> 0
        then (tree ! s)\<lparr>fc := code_of lens s\<rparr> else tree ! s)" by auto
    with True dn n show ?thesis
      by (intro exI [of _ t]) (auto simp: array_simps Suc_le_eq le_less)
  next
    case False
    let ?l = "lens ! n"
    let ?c = "2 * span lens 0 (?l - 1) + rank lens n ?l"
    let ?e = "(tree ! n)\<lparr>fc := code_of lens n\<rparr>"
    have l: "1 \<le> ?l" using False by simp
    have c: "next ! ?l = ?c" using Suc.prems(5) l ln by blast
    have b: "?c < 2 ^ ?l" using n(3) refl l ln lens(3) by (rule rank_bound)
    also have "\<dots> \<le> 2 ^ MAXBITS" using ln by (intro power_increasing) simp_all
    finally have cb: "(?c + 1) mod 65536 = ?c + 1" by (simp add: MAXBITS_def)
    have code: "bi_reverse ?c ?l = code_of lens n"
      using bi_reverse_revb [OF l, of ?c] ln code_of_rank [OF n(3) False ln] by (simp add: MAXBITS_def)
    have "code_of lens n < 2 ^ ?l" using code_of_rank [OF n(3) False ln] revb_less by simp
    also have "\<dots> \<le> 2 ^ MAXBITS" using ln by (intro power_increasing) simp_all
    finally have small: "code_of lens n mod 65536 = code_of lens n" by (simp add: MAXBITS_def)
    have "\<forall>l. 1 \<le> l \<and> l \<le> MAXBITS \<longrightarrow>
        next[?l := ?c + 1] ! l = 2 * span lens 0 (l - 1) + rank lens (n + 1) l"
      using Suc.prems(4,5) ln by (auto simp: rank_Suc nth_list_update)
    moreover have "\<forall>s \<le> mc. dl (tree[n := ?e] ! s) = lens ! s"
      using Suc.prems(2,3) n(2) dn by (auto simp: nth_list_update)
    ultimately obtain t where
      t: "assign_codes (next[?l := ?c + 1]) (n + 1) todo (tree[n := ?e]) = Some t" "length t = length tree"
      "\<forall>s < length tree. t ! s = (if n + 1 \<le> s \<and> s \<le> mc \<and> lens ! s \<noteq> 0
        then (tree[n := ?e] ! s)\<lparr>fc := code_of lens s\<rparr> else tree[n := ?e] ! s)"
      using Suc.IH [of "n + 1" "tree[n := ?e]" "next[?l := ?c + 1]"] Suc.prems by auto
    have "assign_codes next n (Suc todo) tree = Some t"
      using n(2) dn False ln Suc.prems(4) c cb code small t(1) by (simp add: array_simps)
    moreover have "\<forall>s < length tree. t ! s = (if n \<le> s \<and> s \<le> mc \<and> lens ! s \<noteq> 0
        then (tree ! s)\<lparr>fc := code_of lens s\<rparr> else tree ! s)"
      using t(3) n False by (auto simp: nth_list_update le_less Suc_le_eq)
    ultimately show ?thesis using t(2) by blast
  qed
qed simp


section \<open>The codes are canonical\<close>

text \<open>What \<open>gen_codes\<close> asserts of its arguments: \<open>bl_count\<close> has the number of symbols of each
  length, and the code space is not exceeded.\<close>

definition tree_lens :: "ct_data list \<Rightarrow> nat \<Rightarrow> nat list" where
  "tree_lens tree max_code = map dl (take (max_code + 1) tree)"

definition codes_ready :: "ct_data list \<Rightarrow> nat \<Rightarrow> nat list \<Rightarrow> bool" where
  "codes_ready tree max_code bl_count \<longleftrightarrow>
     max_code < length tree \<and> (\<forall>l \<in> set (tree_lens tree max_code). l \<le> MAXBITS) \<and>
     kraft (tree_lens tree max_code) \<le> 2 ^ MAXBITS \<and>
     bl_count = 0 # tl (counts (tree_lens tree max_code))"

lemma gen_codes_eq:
  assumes "codes_ready tree max_code bl_count" "lens = tree_lens tree max_code"
  shows "\<exists>t. gen_codes tree max_code bl_count = Some t \<and> length t = length tree \<and>
    (\<forall>s < length tree. t ! s = (if s \<le> max_code \<and> lens ! s \<noteq> 0
        then (tree ! s)\<lparr>fc := code_of lens s\<rparr> else tree ! s))"
proof -
  from assms have m: "max_code < length tree" and b: "\<forall>l \<in> set lens. l \<le> MAXBITS"
      and kr: "kraft lens \<le> 2 ^ MAXBITS" and bl: "bl_count = 0 # tl (counts lens)"
    by (simp_all add: codes_ready_def)
  have len: "length lens = max_code + 1" using assms(2) m by (simp add: tree_lens_def)
  let ?cs = "take 15 bl_count"
  have cl: "length ?cs = MAXBITS" by (simp add: bl MAXBITS_def)
  have "next_codes 0 ?cs = map (\<lambda>l. 2 * span lens 0 l) [0..<0 + length ?cs]"
  proof (rule next_codes_span)
    fix l assume "0 \<le> l" "l < 0 + length ?cs"
    then have l: "l < MAXBITS" using cl by linarith
    then have "?cs ! l = bl_count ! l" by (simp add: MAXBITS_def)
    with l show "?cs ! (l - 0) = (if l = 0 then 0 else n_left lens 0 l)"
      using counts_n_left [of l lens] by (cases l) (simp_all add: bl nth_tl)
  qed (use cl kr in simp_all)
  then have nx: "next_codes 0 ?cs = map (\<lambda>l. 2 * span lens 0 l) [0..<MAXBITS]" using cl by simp
  have "\<forall>s \<le> max_code. dl (tree ! s) = lens ! s"
    using assms(2) m by (simp add: tree_lens_def)
  moreover have "\<forall>l. 1 \<le> l \<and> l \<le> MAXBITS \<longrightarrow>
      (0 # next_codes 0 ?cs) ! l = 2 * span lens 0 (l - 1) + rank lens 0 l"
    by (auto simp: nx nth_Cons' rank_def)
  ultimately show ?thesis
    using assign_codes_done [of lens max_code 0 "max_code + 1" tree "0 # next_codes 0 ?cs"] len b kr m nx
    by (simp add: gen_codes_def)
qed

text \<open>C19: given the number of codes of each length and lengths that do not exceed the code space,
  \<open>gen_codes\<close> gives each symbol with a length its code in the canonical Huffman code, reversed
  for sending, and changes nothing else.\<close>

theorem gen_codes_canonical:
  assumes "codes_ready tree max_code bl_count"
  shows "\<exists>t. gen_codes tree max_code bl_count = Some t \<and> length t = length tree \<and>
    (\<forall>s < length tree. t ! s =
       (if s \<le> max_code \<and> dl (tree ! s) \<noteq> 0
        then (tree ! s)\<lparr>fc := code_of (tree_lens tree max_code) s\<rparr> else tree ! s))"
proof -
  have "tree_lens tree max_code ! s = dl (tree ! s)" if "s \<le> max_code" for s
    using that assms by (simp add: codes_ready_def tree_lens_def)
  then show ?thesis using gen_codes_eq [OF assms refl] by auto
qed

definition small_tree :: "ct_data list" where
  "small_tree = map (\<lambda>l. \<lparr>fc = 0, dl = l\<rparr>) [2, 1, 3, 3]"

lemma small_ready: "codes_ready small_tree 3 (0 # [1, 1, 2] @ replicate 12 0)"
proof -
  have "tree_lens small_tree 3 = [2, 1, 3, 3]" by code_simp
  moreover have "kraft [2, 1, 3, 3] \<le> 2 ^ MAXBITS" by code_simp
  moreover have "0 # [1, 1, 2] @ replicate 12 0 = 0 # tl (counts [2, 1, 3, 3])" by code_simp
  ultimately show ?thesis by (simp add: codes_ready_def MAXBITS_def small_tree_def)
qed

theorem gen_codes_canonical_witness:
  "\<exists>t. gen_codes small_tree 3 (0 # [1, 1, 2] @ replicate 12 0) = Some t \<and> length t = length small_tree \<and>
    (\<forall>s < length small_tree. t ! s =
       (if s \<le> 3 \<and> dl (small_tree ! s) \<noteq> 0
        then (small_tree ! s)\<lparr>fc := code_of (tree_lens small_tree 3) s\<rparr> else small_tree ! s))"
  by (rule gen_codes_canonical [OF small_ready])

text \<open>C18: the codes the compressor gives the symbols of a tree are those that the decompressor's
  tables decode, when it builds them from the lengths of the same tree.\<close>

theorem codes_decode:
  assumes ready: "codes_ready tree max_code bl_count"
    and gen: "gen_codes tree max_code bl_count = Some t"
    and lens: "take (max_code + 1) lens = tree_lens tree max_code"
    and req: "table_request type lens (max_code + 1) (length table) request (length work)"
    and built: "inflate_table type lens (max_code + 1) table request work = Some (Built tab used root)"
    and s: "s \<le> max_code" "dl (t ! s) \<noteq> 0"
    and w: "w < 2 ^ MAXBITS" "w mod 2 ^ dl (t ! s) = fc (t ! s)"
  shows "lookup tab root w = (fst (sym_value type s), snd (sym_value type s), dl (t ! s))"
proof -
  let ?l = "take (max_code + 1) lens"
  from ready have m: "max_code < length tree" by (simp add: codes_ready_def)
  have ls: "tree_lens tree max_code ! s = dl (tree ! s)" using s m by (simp add: tree_lens_def)
  then have l: "?l ! s = dl (tree ! s)" using lens by simp
  from gen_codes_eq [OF ready lens] gen s m l have
    t: "t ! s = (if dl (tree ! s) \<noteq> 0 then (tree ! s)\<lparr>fc := code_of ?l s\<rparr> else tree ! s)"
    by simp
  with s have d: "dl (tree ! s) \<noteq> 0" "dl (t ! s) = dl (tree ! s)" "fc (t ! s) = code_of ?l s"
    by (auto split: if_splits)
  show ?thesis using table_lookup [OF req built _ _ w(1), of s] s l d w(2) lens by simp
qed


lemma small_codes:
  "gen_codes small_tree 3 (0 # [1, 1, 2] @ replicate 12 0) =
    Some [\<lparr>fc = 1, dl = 2\<rparr>, \<lparr>fc = 0, dl = 1\<rparr>, \<lparr>fc = 3, dl = 3\<rparr>, \<lparr>fc = 7, dl = 3\<rparr>]"
  by code_simp

theorem codes_decode_witness:
  "lookup small_table 3 5 = (fst (sym_value CODES 0), snd (sym_value CODES 0), 2)"
proof -
  have "take (3 + 1) [2::nat, 1, 3, 3] = tree_lens small_tree 3" by code_simp
  from codes_decode [OF small_ready small_codes this _ _, of CODES "replicate 8 (invalid_code 0)" 3
      "replicate 4 0" small_table 8 3 0 5]
  show ?thesis using small_request small_built by (simp add: MAXBITS_def)
qed

end
