(* ===== verification/Trees_Static.thy ===== *)
theory Trees_Static imports Trees_Codes begin

text \<open>
  The constant tables of \<^verbatim>\<open>libz_u/trees.c\<close>: the fixed trees and the codes of lengths and
  distances, as \<^verbatim>\<open>trees.h\<close> has them and as \<open>tr_static_init\<close> computes them.  The lemmas show
  that the two agree.
\<close>

section \<open>Constants\<close>

definition LENGTH_CODES :: nat where "LENGTH_CODES = 29"
definition LITERALS :: nat where "LITERALS = 256"
definition L_CODES :: nat where "L_CODES = LITERALS + 1 + LENGTH_CODES"
definition D_CODES :: nat where "D_CODES = 30"
definition BL_CODES :: nat where "BL_CODES = 19"
definition HEAP_SIZE :: nat where "HEAP_SIZE = 2 * L_CODES + 1"
definition MAX_BITS :: nat where "MAX_BITS = 15"
definition MAX_BL_BITS :: nat where "MAX_BL_BITS = 7"
definition END_BLOCK :: nat where "END_BLOCK = 256"
definition REP_3_6 :: nat where "REP_3_6 = 16"
definition REPZ_3_10 :: nat where "REPZ_3_10 = 17"
definition REPZ_11_138 :: nat where "REPZ_11_138 = 18"

definition extra_lbits :: "nat list" where
  "extra_lbits = [0,0,0,0,0,0,0,0,1,1,1,1,2,2,2,2,3,3,3,3,4,4,4,4,5,5,5,5,0]"

definition extra_dbits :: "nat list" where
  "extra_dbits = [0,0,0,0,1,1,2,2,3,3,4,4,5,5,6,6,7,7,8,8,9,9,10,10,11,11,12,12,13,13]"

definition extra_blbits :: "nat list" where
  "extra_blbits = [0,0,0,0,0,0,0,0,0,0,0,0,0,0,0,0,2,3,7]"

definition bl_order :: "nat list" where
  "bl_order = [16,17,18,0,8,7,9,6,10,5,11,4,12,3,13,2,14,1,15]"

section \<open>The tables of \<^verbatim>\<open>trees.h\<close>\<close>

definition static_ltree :: "ct_data list" where
  "static_ltree = map (\<lambda>(c, l). \<lparr>fc = c, dl = l\<rparr>) [
    (12, 8), (140, 8), (76, 8), (204, 8), (44, 8), (172, 8), (108, 8), (236, 8), (28, 8), (156, 8),
    (92, 8), (220, 8), (60, 8), (188, 8), (124, 8), (252, 8), (2, 8), (130, 8), (66, 8), (194, 8),
    (34, 8), (162, 8), (98, 8), (226, 8), (18, 8), (146, 8), (82, 8), (210, 8), (50, 8), (178, 8),
    (114, 8), (242, 8), (10, 8), (138, 8), (74, 8), (202, 8), (42, 8), (170, 8), (106, 8),
    (234, 8), (26, 8), (154, 8), (90, 8), (218, 8), (58, 8), (186, 8), (122, 8), (250, 8), (6, 8),
    (134, 8), (70, 8), (198, 8), (38, 8), (166, 8), (102, 8), (230, 8), (22, 8), (150, 8), (86, 8),
    (214, 8), (54, 8), (182, 8), (118, 8), (246, 8), (14, 8), (142, 8), (78, 8), (206, 8), (46, 8),
    (174, 8), (110, 8), (238, 8), (30, 8), (158, 8), (94, 8), (222, 8), (62, 8), (190, 8),
    (126, 8), (254, 8), (1, 8), (129, 8), (65, 8), (193, 8), (33, 8), (161, 8), (97, 8), (225, 8),
    (17, 8), (145, 8), (81, 8), (209, 8), (49, 8), (177, 8), (113, 8), (241, 8), (9, 8), (137, 8),
    (73, 8), (201, 8), (41, 8), (169, 8), (105, 8), (233, 8), (25, 8), (153, 8), (89, 8), (217, 8),
    (57, 8), (185, 8), (121, 8), (249, 8), (5, 8), (133, 8), (69, 8), (197, 8), (37, 8), (165, 8),
    (101, 8), (229, 8), (21, 8), (149, 8), (85, 8), (213, 8), (53, 8), (181, 8), (117, 8),
    (245, 8), (13, 8), (141, 8), (77, 8), (205, 8), (45, 8), (173, 8), (109, 8), (237, 8), (29, 8),
    (157, 8), (93, 8), (221, 8), (61, 8), (189, 8), (125, 8), (253, 8), (19, 9), (275, 9),
    (147, 9), (403, 9), (83, 9), (339, 9), (211, 9), (467, 9), (51, 9), (307, 9), (179, 9),
    (435, 9), (115, 9), (371, 9), (243, 9), (499, 9), (11, 9), (267, 9), (139, 9), (395, 9),
    (75, 9), (331, 9), (203, 9), (459, 9), (43, 9), (299, 9), (171, 9), (427, 9), (107, 9),
    (363, 9), (235, 9), (491, 9), (27, 9), (283, 9), (155, 9), (411, 9), (91, 9), (347, 9),
    (219, 9), (475, 9), (59, 9), (315, 9), (187, 9), (443, 9), (123, 9), (379, 9), (251, 9),
    (507, 9), (7, 9), (263, 9), (135, 9), (391, 9), (71, 9), (327, 9), (199, 9), (455, 9), (39, 9),
    (295, 9), (167, 9), (423, 9), (103, 9), (359, 9), (231, 9), (487, 9), (23, 9), (279, 9),
    (151, 9), (407, 9), (87, 9), (343, 9), (215, 9), (471, 9), (55, 9), (311, 9), (183, 9),
    (439, 9), (119, 9), (375, 9), (247, 9), (503, 9), (15, 9), (271, 9), (143, 9), (399, 9),
    (79, 9), (335, 9), (207, 9), (463, 9), (47, 9), (303, 9), (175, 9), (431, 9), (111, 9),
    (367, 9), (239, 9), (495, 9), (31, 9), (287, 9), (159, 9), (415, 9), (95, 9), (351, 9),
    (223, 9), (479, 9), (63, 9), (319, 9), (191, 9), (447, 9), (127, 9), (383, 9), (255, 9),
    (511, 9), (0, 7), (64, 7), (32, 7), (96, 7), (16, 7), (80, 7), (48, 7), (112, 7), (8, 7),
    (72, 7), (40, 7), (104, 7), (24, 7), (88, 7), (56, 7), (120, 7), (4, 7), (68, 7), (36, 7),
    (100, 7), (20, 7), (84, 7), (52, 7), (116, 7), (3, 8), (131, 8), (67, 8), (195, 8), (35, 8),
    (163, 8), (99, 8), (227, 8)]"

definition static_dtree :: "ct_data list" where
  "static_dtree = map (\<lambda>(c, l). \<lparr>fc = c, dl = l\<rparr>) [
    (0, 5), (16, 5), (8, 5), (24, 5), (4, 5), (20, 5), (12, 5), (28, 5), (2, 5), (18, 5), (10, 5),
    (26, 5), (6, 5), (22, 5), (14, 5), (30, 5), (1, 5), (17, 5), (9, 5), (25, 5), (5, 5), (21, 5),
    (13, 5), (29, 5), (3, 5), (19, 5), (11, 5), (27, 5), (7, 5), (23, 5)]"

definition dist_code :: "nat list" where
  "dist_code = [
    0, 1, 2, 3, 4, 4, 5, 5, 6, 6, 6, 6, 7, 7, 7, 7, 8, 8, 8, 8, 8, 8, 8, 8, 9, 9, 9, 9, 9, 9, 9, 9,
    10, 10, 10, 10, 10, 10, 10, 10, 10, 10, 10, 10, 10, 10, 10, 10, 11, 11, 11, 11, 11, 11, 11, 11,
    11, 11, 11, 11, 11, 11, 11, 11, 12, 12, 12, 12, 12, 12, 12, 12, 12, 12, 12, 12, 12, 12, 12, 12,
    12, 12, 12, 12, 12, 12, 12, 12, 12, 12, 12, 12, 12, 12, 12, 12, 13, 13, 13, 13, 13, 13, 13, 13,
    13, 13, 13, 13, 13, 13, 13, 13, 13, 13, 13, 13, 13, 13, 13, 13, 13, 13, 13, 13, 13, 13, 13, 13,
    14, 14, 14, 14, 14, 14, 14, 14, 14, 14, 14, 14, 14, 14, 14, 14, 14, 14, 14, 14, 14, 14, 14, 14,
    14, 14, 14, 14, 14, 14, 14, 14, 14, 14, 14, 14, 14, 14, 14, 14, 14, 14, 14, 14, 14, 14, 14, 14,
    14, 14, 14, 14, 14, 14, 14, 14, 14, 14, 14, 14, 14, 14, 14, 14, 15, 15, 15, 15, 15, 15, 15, 15,
    15, 15, 15, 15, 15, 15, 15, 15, 15, 15, 15, 15, 15, 15, 15, 15, 15, 15, 15, 15, 15, 15, 15, 15,
    15, 15, 15, 15, 15, 15, 15, 15, 15, 15, 15, 15, 15, 15, 15, 15, 15, 15, 15, 15, 15, 15, 15, 15,
    15, 15, 15, 15, 15, 15, 15, 15, 0, 0, 16, 17, 18, 18, 19, 19, 20, 20, 20, 20, 21, 21, 21, 21,
    22, 22, 22, 22, 22, 22, 22, 22, 23, 23, 23, 23, 23, 23, 23, 23, 24, 24, 24, 24, 24, 24, 24, 24,
    24, 24, 24, 24, 24, 24, 24, 24, 25, 25, 25, 25, 25, 25, 25, 25, 25, 25, 25, 25, 25, 25, 25, 25,
    26, 26, 26, 26, 26, 26, 26, 26, 26, 26, 26, 26, 26, 26, 26, 26, 26, 26, 26, 26, 26, 26, 26, 26,
    26, 26, 26, 26, 26, 26, 26, 26, 27, 27, 27, 27, 27, 27, 27, 27, 27, 27, 27, 27, 27, 27, 27, 27,
    27, 27, 27, 27, 27, 27, 27, 27, 27, 27, 27, 27, 27, 27, 27, 27, 28, 28, 28, 28, 28, 28, 28, 28,
    28, 28, 28, 28, 28, 28, 28, 28, 28, 28, 28, 28, 28, 28, 28, 28, 28, 28, 28, 28, 28, 28, 28, 28,
    28, 28, 28, 28, 28, 28, 28, 28, 28, 28, 28, 28, 28, 28, 28, 28, 28, 28, 28, 28, 28, 28, 28, 28,
    28, 28, 28, 28, 28, 28, 28, 28, 29, 29, 29, 29, 29, 29, 29, 29, 29, 29, 29, 29, 29, 29, 29, 29,
    29, 29, 29, 29, 29, 29, 29, 29, 29, 29, 29, 29, 29, 29, 29, 29, 29, 29, 29, 29, 29, 29, 29, 29,
    29, 29, 29, 29, 29, 29, 29, 29, 29, 29, 29, 29, 29, 29, 29, 29, 29, 29, 29, 29, 29, 29, 29, 29]"

definition length_code :: "nat list" where
  "length_code = [
    0, 1, 2, 3, 4, 5, 6, 7, 8, 8, 9, 9, 10, 10, 11, 11, 12, 12, 12, 12, 13, 13, 13, 13, 14, 14, 14,
    14, 15, 15, 15, 15, 16, 16, 16, 16, 16, 16, 16, 16, 17, 17, 17, 17, 17, 17, 17, 17, 18, 18, 18,
    18, 18, 18, 18, 18, 19, 19, 19, 19, 19, 19, 19, 19, 20, 20, 20, 20, 20, 20, 20, 20, 20, 20, 20,
    20, 20, 20, 20, 20, 21, 21, 21, 21, 21, 21, 21, 21, 21, 21, 21, 21, 21, 21, 21, 21, 22, 22, 22,
    22, 22, 22, 22, 22, 22, 22, 22, 22, 22, 22, 22, 22, 23, 23, 23, 23, 23, 23, 23, 23, 23, 23, 23,
    23, 23, 23, 23, 23, 24, 24, 24, 24, 24, 24, 24, 24, 24, 24, 24, 24, 24, 24, 24, 24, 24, 24, 24,
    24, 24, 24, 24, 24, 24, 24, 24, 24, 24, 24, 24, 24, 25, 25, 25, 25, 25, 25, 25, 25, 25, 25, 25,
    25, 25, 25, 25, 25, 25, 25, 25, 25, 25, 25, 25, 25, 25, 25, 25, 25, 25, 25, 25, 25, 26, 26, 26,
    26, 26, 26, 26, 26, 26, 26, 26, 26, 26, 26, 26, 26, 26, 26, 26, 26, 26, 26, 26, 26, 26, 26, 26,
    26, 26, 26, 26, 26, 27, 27, 27, 27, 27, 27, 27, 27, 27, 27, 27, 27, 27, 27, 27, 27, 27, 27, 27,
    27, 27, 27, 27, 27, 27, 27, 27, 27, 27, 27, 27, 28]"

definition base_length :: "nat list" where
  "base_length = [
    0, 1, 2, 3, 4, 5, 6, 7, 8, 10, 12, 14, 16, 20, 24, 28, 32, 40, 48, 56, 64, 80, 96, 112, 128,
    160, 192, 224, 0]"

definition base_dist :: "nat list" where
  "base_dist = [
    0, 1, 2, 3, 4, 6, 8, 12, 16, 24, 32, 48, 64, 96, 128, 192, 256, 384, 512, 768, 1024, 1536,
    2048, 3072, 4096, 6144, 8192, 12288, 16384, 24576]"

text \<open>The code of a distance less one.\<close>

definition d_code :: "nat \<Rightarrow> nat option" where
  "d_code dist = (if dist < 256 then rd dist_code dist else rd dist_code (256 + dist div 2 ^ 7))"

section \<open>\<open>tr_static_init\<close>\<close>

text \<open>The loops fill the arrays of codes in order; an array is the list of what is filled in.\<close>

text \<open>\<open>for (code = c; \<dots>; code++) { base[code] = length; for (n = 0; n < (1<<extra[code]); n++)
  codes[length++] = code; }\<close>, the extra bits of the codes given.\<close>

fun fill_codes :: "nat \<Rightarrow> nat list \<Rightarrow> nat \<Rightarrow> nat list \<times> nat list \<Rightarrow> nat list \<times> nat list \<times> nat" where
  "fill_codes c [] at (base, codes) = (base, codes, at)"
| "fill_codes c (x # xs) at (base, codes) =
     fill_codes (c + 1) xs (at + 2 ^ x) (base @ [at], codes @ replicate (2 ^ x) c)"

definition init_lengths :: "nat list \<times> nat list" where
  "init_lengths =
    (let (base, codes, length) = fill_codes 0 (take (LENGTH_CODES - 1) extra_lbits) 0 ([], []) in
     (base @ [0], codes[length - 1 := LENGTH_CODES - 1]))"   \<comment> \<open>\<open>base_length[28]\<close> keeps its 0\<close>

definition init_dists :: "nat list \<times> nat list" where
  "init_dists =
    (let (base, codes, dist) = fill_codes 0 (take 16 extra_dbits) 0 ([], []);
         (base', codes, dist) = fill_codes 16 (map (\<lambda>x. x - 7) (drop 16 extra_dbits)) (dist div 2 ^ 7)
           ([], codes @ replicate (dist div 2 ^ 7) 0) in
     (base @ map (\<lambda>d. d * 2 ^ 7) base', codes))"

text \<open>The lengths of the fixed literal tree and their counts.\<close>

fun set_lens :: "nat \<Rightarrow> nat \<Rightarrow> ct_data list \<times> nat list \<Rightarrow> ct_data list \<times> nat list" where
  "set_lens 0 l (tree, count) = (tree, count)"
| "set_lens (Suc k) l (tree, count) =
     set_lens k l (tree @ [\<lparr>fc = 0, dl = l\<rparr>], count[l := count ! l + 1])"

definition init_ltree :: "ct_data list option" where
  "init_ltree =
    (let (tree, count) =
       (set_lens 8 8 \<circ> set_lens 24 7 \<circ> set_lens 112 9 \<circ> set_lens 144 8) ([], replicate (MAX_BITS + 1) 0) in
     gen_codes tree (L_CODES + 1) count)"

definition init_dtree :: "ct_data list" where
  "init_dtree = map (\<lambda>n. \<lparr>fc = bi_reverse n 5, dl = 5\<rparr>) [0..<D_CODES]"

definition tr_static_init ::
    "((nat list \<times> nat list) \<times> (nat list \<times> nat list) \<times> ct_data list \<times> ct_data list) option" where
  "tr_static_init = do { ltree \<leftarrow> init_ltree; Some (init_lengths, init_dists, ltree, init_dtree) }"

section \<open>The tables are those of \<open>tr_static_init\<close>\<close>

text \<open>Symbols in a row with codes of one length, and the same before they have codes.\<close>

definition run :: "nat \<Rightarrow> nat \<Rightarrow> nat \<Rightarrow> ct_data list" where
  "run c l n = map (\<lambda>k. \<lparr>fc = bi_reverse (c + k) l mod 65536, dl = l\<rparr>) [0..<n]"

lemma assign_codes_run:
  assumes "l \<noteq> 0" "l < length next" "next ! l + n < 65536"
  shows "assign_codes next (length pre) (n + m) (pre @ replicate n \<lparr>fc = 0, dl = l\<rparr> @ rest) =
    assign_codes (next[l := next ! l + n]) (length (pre @ run (next ! l) l n)) m (pre @ run (next ! l) l n @ rest)"
  using assms
proof (induction n arbitrary: pre "next")
  case (Suc n)
  let ?e = "\<lparr>fc = bi_reverse (next ! l) l mod 65536, dl = l\<rparr>" and ?next = "next[l := next ! l + 1]"
  have run: "run (next ! l) l (Suc n) = ?e # run (?next ! l) l n"
    using Suc.prems by (simp add: run_def upt_conv_Cons map_Suc_upt [symmetric] del: upt_Suc)
  have "assign_codes next (length pre) (Suc n + m) (pre @ replicate (Suc n) \<lparr>fc = 0, dl = l\<rparr> @ rest) =
      assign_codes ?next (length (pre @ [?e])) (n + m) ((pre @ [?e]) @ replicate n \<lparr>fc = 0, dl = l\<rparr> @ rest)"
    using Suc.prems by (simp add: array_simps)
  also have "\<dots> = assign_codes (?next[l := ?next ! l + n]) (length ((pre @ [?e]) @ run (?next ! l) l n)) m
      ((pre @ [?e]) @ run (?next ! l) l n @ rest)"
    using Suc.prems by (intro Suc.IH) simp_all
  also have "\<dots> = assign_codes (next[l := next ! l + Suc n]) (length (pre @ run (next ! l) l (Suc n))) m
      (pre @ run (next ! l) l (Suc n) @ rest)"
    using Suc.prems unfolding run by simp
  finally show ?case .
qed (simp add: run_def)

lemma set_lens_replicate:
  "l < length count \<Longrightarrow>
    set_lens k l (tree, count) = (tree @ replicate k \<lparr>fc = 0, dl = l\<rparr>, count[l := count ! l + k])"
  by (induction k arbitrary: tree count) (simp_all add: replicate_app_Cons_same)

lemma bi_rev_step:
  "bi_rev code len res =
    (if 1 < len then bi_rev (code div 2) (len - 1) (2 * (res OR (code AND 1)) mod 4294967296)
     else 2 * (res OR (code AND 1)) mod 4294967296)"
  by (subst bi_rev.simps) (simp add: Let_def)

lemma run_step: "run c l n = (if n = 0 then [] else \<lparr>fc = bi_reverse c l mod 65536, dl = l\<rparr> # run (c + 1) l (n - 1))"
  by (cases n) (simp_all add: run_def upt_conv_Cons map_Suc_upt [symmetric] del: upt_Suc)

lemma run_append: "run c l (n + m) = run c l n @ run (c + n) l m"
  by (induction n arbitrary: c) (simp_all add: run_step [of _ _ "Suc _"] run_step [of _ _ 0])

lemma static_run_0: "take 72 (drop 0 static_ltree) = run 48 8 72"
  by (simp add: static_ltree_def run_step bi_reverse_def bi_rev_step)

lemma static_run_72: "take 72 (drop 72 static_ltree) = run 120 8 72"
  by (simp add: static_ltree_def run_step bi_reverse_def bi_rev_step)

lemma static_run_144: "take 56 (drop 144 static_ltree) = run 400 9 56"
  by (simp add: static_ltree_def run_step bi_reverse_def bi_rev_step)

lemma static_run_200: "take 56 (drop 200 static_ltree) = run 456 9 56"
  by (simp add: static_ltree_def run_step bi_reverse_def bi_rev_step)

lemma static_run_256: "take 24 (drop 256 static_ltree) = run 0 7 24"
  by (simp add: static_ltree_def run_step bi_reverse_def bi_rev_step)

lemma static_run_280: "take 8 (drop 280 static_ltree) = run 192 8 8"
  by (simp add: static_ltree_def run_step bi_reverse_def bi_rev_step)

lemma cut_list: "drop a xs = take b (drop a xs) @ drop (a + b) xs"
  by (metis append_take_drop_id drop_drop add.commute)

lemma static_ltree_runs:
  "static_ltree = run 48 8 144 @ run 400 9 112 @ run 0 7 24 @ run 192 8 8"
proof -
  let ?s = static_ltree
  have "length ?s = 288" by (simp add: static_ltree_def)
  then have "drop (280 + 8) ?s = []" by simp
  then have "drop 280 ?s = take 8 (drop 280 ?s)" using cut_list [of 280 ?s 8] by simp
  then have "drop 256 ?s = take 24 (drop 256 ?s) @ take 8 (drop 280 ?s)"
    using cut_list [of 256 ?s 24] by simp
  then have "drop 144 ?s = take 56 (drop 144 ?s) @ take 56 (drop 200 ?s) @ take 24 (drop 256 ?s) @ take 8 (drop 280 ?s)"
    using cut_list [of 144 ?s 56] cut_list [of 200 ?s 56] by simp
  then have "?s = take 72 (drop 0 ?s) @ take 72 (drop 72 ?s) @ take 56 (drop 144 ?s) @ take 56 (drop 200 ?s) @
      take 24 (drop 256 ?s) @ take 8 (drop 280 ?s)"
    using cut_list [of 0 ?s 72] cut_list [of 72 ?s 72] by simp
  also have "\<dots> = (run 48 8 72 @ run 120 8 72) @ (run 400 9 56 @ run 456 9 56) @ run 0 7 24 @ run 192 8 8"
    by (simp only: static_run_0 static_run_72 static_run_144 static_run_200 static_run_256 static_run_280 append_assoc)
  also have "run 48 8 72 @ run 120 8 72 = run 48 8 144" using run_append [of 48 8 72 72] by simp
  also have "run 400 9 56 @ run 456 9 56 = run 400 9 112" using run_append [of 400 9 56 56] by simp
  finally show ?thesis .
qed

lemma init_ltree_eq: "init_ltree = Some static_ltree"
proof -
  let ?r = "\<lambda>n l. replicate n \<lparr>fc = 0, dl = l\<rparr> :: ct_data list"
  let ?n0 = "[0,0,0,0,0,0,0,0,48,400,1024,2048,4096,8192,16384,32768] :: nat list"
  let ?n1 = "[0,0,0,0,0,0,0,0,192,400,1024,2048,4096,8192,16384,32768] :: nat list"
  let ?n2 = "[0,0,0,0,0,0,0,0,192,512,1024,2048,4096,8192,16384,32768] :: nat list"
  let ?n3 = "[0,0,0,0,0,0,0,24,192,512,1024,2048,4096,8192,16384,32768] :: nat list"
  have count: "(replicate 16 0)[8 := 144, 9 := 112, 7 := 24, 8 := 152] =
      [0::nat,0,0,0,0,0,0,24,152,112,0,0,0,0,0,0]"
    by code_simp
  have lens: "(set_lens 8 8 \<circ> set_lens 24 7 \<circ> set_lens 112 9 \<circ> set_lens 144 8) ([], replicate (MAX_BITS + 1) 0) =
      (?r 144 8 @ ?r 112 9 @ ?r 24 7 @ ?r 8 8, [0,0,0,0,0,0,0,24,152,112,0,0,0,0,0,0])"
    using count by (simp add: set_lens_replicate MAX_BITS_def)
  have nx: "0 # next_codes 0 (take 15 [0,0,0,0,0,0,0,24,152,112,0,0,0,0,0,0]) = ?n0" by code_simp
  have n: "L_CODES + 1 + 1 = 144 + 144" by (simp add: L_CODES_def LITERALS_def LENGTH_CODES_def)
  have "init_ltree = assign_codes ?n0 0 (144 + 144) (?r 144 8 @ ?r 112 9 @ ?r 24 7 @ ?r 8 8)"
    unfolding init_ltree_def lens gen_codes_def by (simp only: Let_def prod.case nx n)
  also have "\<dots> = assign_codes ?n1 (length (run 48 8 144)) (112 + 32)
      (run 48 8 144 @ ?r 112 9 @ ?r 24 7 @ ?r 8 8)"
    using assign_codes_run [of 8 ?n0 144 "[]" 144] by (simp del: assign_codes.simps)
  also have "\<dots> = assign_codes ?n2 (length (run 48 8 144 @ run 400 9 112)) (24 + 8)
      ((run 48 8 144 @ run 400 9 112) @ ?r 24 7 @ ?r 8 8)"
    using assign_codes_run [of 9 ?n1 112 "run 48 8 144" 32] by (simp del: assign_codes.simps)
  also have "\<dots> = assign_codes ?n3 (length ((run 48 8 144 @ run 400 9 112) @ run 0 7 24)) (8 + 0)
      (((run 48 8 144 @ run 400 9 112) @ run 0 7 24) @ ?r 8 8 @ [])"
    using assign_codes_run [of 7 ?n2 24 "run 48 8 144 @ run 400 9 112" 8] by (simp del: assign_codes.simps)
  also have "\<dots> = Some static_ltree"
    by (subst assign_codes_run) (simp_all add: static_ltree_runs)
  finally show ?thesis .
qed

lemma init_lengths_eq: "init_lengths = (base_length, length_code)" by code_simp

lemma init_dists_eq: "init_dists = (base_dist, dist_code)" by code_simp

lemma init_dtree_eq: "init_dtree = static_dtree" by code_simp

text \<open>C20: the tables of \<^verbatim>\<open>trees.h\<close> are those that \<open>tr_static_init\<close> computes.\<close>

theorem static_tables_generated:
  "tr_static_init = Some ((base_length, length_code), (base_dist, dist_code), static_ltree, static_dtree)"
  by (simp add: tr_static_init_def init_ltree_eq init_lengths_eq init_dists_eq init_dtree_eq)

end
