(* ===== verification/Trees_Fixed.thy ===== *)
theory Trees_Fixed imports Trees_Static begin

text \<open>
  The fixed codes and the codes of lengths and distances on both sides: the tables of
  \<^verbatim>\<open>libz_u/inffixed.h\<close> decode the codes of \<^verbatim>\<open>trees.h\<close>, and the base values and extra bits of
  \<^verbatim>\<open>inftrees.c\<close> give back the length or the distance that the tables of \<^verbatim>\<open>trees.c\<close> encode.
\<close>

section \<open>The fixed tables of the decompressor\<close>

text \<open>\<^verbatim>\<open>inffixed.h\<close>, the tables \<open>inflate\<close> uses for blocks with the fixed codes.\<close>

definition lenfix :: "code list" where
  "lenfix = map (\<lambda>(p, b, v). \<lparr>c_op = p, c_bits = b, c_val = v\<rparr>) [
    (96, 7, 0), (0, 8, 80), (0, 8, 16), (20, 8, 115), (18, 7, 31), (0, 8, 112), (0, 8, 48),
    (0, 9, 192), (16, 7, 10), (0, 8, 96), (0, 8, 32), (0, 9, 160), (0, 8, 0), (0, 8, 128),
    (0, 8, 64), (0, 9, 224), (16, 7, 6), (0, 8, 88), (0, 8, 24), (0, 9, 144), (19, 7, 59),
    (0, 8, 120), (0, 8, 56), (0, 9, 208), (17, 7, 17), (0, 8, 104), (0, 8, 40), (0, 9, 176),
    (0, 8, 8), (0, 8, 136), (0, 8, 72), (0, 9, 240), (16, 7, 4), (0, 8, 84), (0, 8, 20),
    (21, 8, 227), (19, 7, 43), (0, 8, 116), (0, 8, 52), (0, 9, 200), (17, 7, 13), (0, 8, 100),
    (0, 8, 36), (0, 9, 168), (0, 8, 4), (0, 8, 132), (0, 8, 68), (0, 9, 232), (16, 7, 8),
    (0, 8, 92), (0, 8, 28), (0, 9, 152), (20, 7, 83), (0, 8, 124), (0, 8, 60), (0, 9, 216),
    (18, 7, 23), (0, 8, 108), (0, 8, 44), (0, 9, 184), (0, 8, 12), (0, 8, 140), (0, 8, 76),
    (0, 9, 248), (16, 7, 3), (0, 8, 82), (0, 8, 18), (21, 8, 163), (19, 7, 35), (0, 8, 114),
    (0, 8, 50), (0, 9, 196), (17, 7, 11), (0, 8, 98), (0, 8, 34), (0, 9, 164), (0, 8, 2),
    (0, 8, 130), (0, 8, 66), (0, 9, 228), (16, 7, 7), (0, 8, 90), (0, 8, 26), (0, 9, 148),
    (20, 7, 67), (0, 8, 122), (0, 8, 58), (0, 9, 212), (18, 7, 19), (0, 8, 106), (0, 8, 42),
    (0, 9, 180), (0, 8, 10), (0, 8, 138), (0, 8, 74), (0, 9, 244), (16, 7, 5), (0, 8, 86),
    (0, 8, 22), (64, 8, 0), (19, 7, 51), (0, 8, 118), (0, 8, 54), (0, 9, 204), (17, 7, 15),
    (0, 8, 102), (0, 8, 38), (0, 9, 172), (0, 8, 6), (0, 8, 134), (0, 8, 70), (0, 9, 236),
    (16, 7, 9), (0, 8, 94), (0, 8, 30), (0, 9, 156), (20, 7, 99), (0, 8, 126), (0, 8, 62),
    (0, 9, 220), (18, 7, 27), (0, 8, 110), (0, 8, 46), (0, 9, 188), (0, 8, 14), (0, 8, 142),
    (0, 8, 78), (0, 9, 252), (96, 7, 0), (0, 8, 81), (0, 8, 17), (21, 8, 131), (18, 7, 31),
    (0, 8, 113), (0, 8, 49), (0, 9, 194), (16, 7, 10), (0, 8, 97), (0, 8, 33), (0, 9, 162),
    (0, 8, 1), (0, 8, 129), (0, 8, 65), (0, 9, 226), (16, 7, 6), (0, 8, 89), (0, 8, 25),
    (0, 9, 146), (19, 7, 59), (0, 8, 121), (0, 8, 57), (0, 9, 210), (17, 7, 17), (0, 8, 105),
    (0, 8, 41), (0, 9, 178), (0, 8, 9), (0, 8, 137), (0, 8, 73), (0, 9, 242), (16, 7, 4),
    (0, 8, 85), (0, 8, 21), (16, 8, 258), (19, 7, 43), (0, 8, 117), (0, 8, 53), (0, 9, 202),
    (17, 7, 13), (0, 8, 101), (0, 8, 37), (0, 9, 170), (0, 8, 5), (0, 8, 133), (0, 8, 69),
    (0, 9, 234), (16, 7, 8), (0, 8, 93), (0, 8, 29), (0, 9, 154), (20, 7, 83), (0, 8, 125),
    (0, 8, 61), (0, 9, 218), (18, 7, 23), (0, 8, 109), (0, 8, 45), (0, 9, 186), (0, 8, 13),
    (0, 8, 141), (0, 8, 77), (0, 9, 250), (16, 7, 3), (0, 8, 83), (0, 8, 19), (21, 8, 195),
    (19, 7, 35), (0, 8, 115), (0, 8, 51), (0, 9, 198), (17, 7, 11), (0, 8, 99), (0, 8, 35),
    (0, 9, 166), (0, 8, 3), (0, 8, 131), (0, 8, 67), (0, 9, 230), (16, 7, 7), (0, 8, 91),
    (0, 8, 27), (0, 9, 150), (20, 7, 67), (0, 8, 123), (0, 8, 59), (0, 9, 214), (18, 7, 19),
    (0, 8, 107), (0, 8, 43), (0, 9, 182), (0, 8, 11), (0, 8, 139), (0, 8, 75), (0, 9, 246),
    (16, 7, 5), (0, 8, 87), (0, 8, 23), (64, 8, 0), (19, 7, 51), (0, 8, 119), (0, 8, 55),
    (0, 9, 206), (17, 7, 15), (0, 8, 103), (0, 8, 39), (0, 9, 174), (0, 8, 7), (0, 8, 135),
    (0, 8, 71), (0, 9, 238), (16, 7, 9), (0, 8, 95), (0, 8, 31), (0, 9, 158), (20, 7, 99),
    (0, 8, 127), (0, 8, 63), (0, 9, 222), (18, 7, 27), (0, 8, 111), (0, 8, 47), (0, 9, 190),
    (0, 8, 15), (0, 8, 143), (0, 8, 79), (0, 9, 254), (96, 7, 0), (0, 8, 80), (0, 8, 16),
    (20, 8, 115), (18, 7, 31), (0, 8, 112), (0, 8, 48), (0, 9, 193), (16, 7, 10), (0, 8, 96),
    (0, 8, 32), (0, 9, 161), (0, 8, 0), (0, 8, 128), (0, 8, 64), (0, 9, 225), (16, 7, 6),
    (0, 8, 88), (0, 8, 24), (0, 9, 145), (19, 7, 59), (0, 8, 120), (0, 8, 56), (0, 9, 209),
    (17, 7, 17), (0, 8, 104), (0, 8, 40), (0, 9, 177), (0, 8, 8), (0, 8, 136), (0, 8, 72),
    (0, 9, 241), (16, 7, 4), (0, 8, 84), (0, 8, 20), (21, 8, 227), (19, 7, 43), (0, 8, 116),
    (0, 8, 52), (0, 9, 201), (17, 7, 13), (0, 8, 100), (0, 8, 36), (0, 9, 169), (0, 8, 4),
    (0, 8, 132), (0, 8, 68), (0, 9, 233), (16, 7, 8), (0, 8, 92), (0, 8, 28), (0, 9, 153),
    (20, 7, 83), (0, 8, 124), (0, 8, 60), (0, 9, 217), (18, 7, 23), (0, 8, 108), (0, 8, 44),
    (0, 9, 185), (0, 8, 12), (0, 8, 140), (0, 8, 76), (0, 9, 249), (16, 7, 3), (0, 8, 82),
    (0, 8, 18), (21, 8, 163), (19, 7, 35), (0, 8, 114), (0, 8, 50), (0, 9, 197), (17, 7, 11),
    (0, 8, 98), (0, 8, 34), (0, 9, 165), (0, 8, 2), (0, 8, 130), (0, 8, 66), (0, 9, 229),
    (16, 7, 7), (0, 8, 90), (0, 8, 26), (0, 9, 149), (20, 7, 67), (0, 8, 122), (0, 8, 58),
    (0, 9, 213), (18, 7, 19), (0, 8, 106), (0, 8, 42), (0, 9, 181), (0, 8, 10), (0, 8, 138),
    (0, 8, 74), (0, 9, 245), (16, 7, 5), (0, 8, 86), (0, 8, 22), (64, 8, 0), (19, 7, 51),
    (0, 8, 118), (0, 8, 54), (0, 9, 205), (17, 7, 15), (0, 8, 102), (0, 8, 38), (0, 9, 173),
    (0, 8, 6), (0, 8, 134), (0, 8, 70), (0, 9, 237), (16, 7, 9), (0, 8, 94), (0, 8, 30),
    (0, 9, 157), (20, 7, 99), (0, 8, 126), (0, 8, 62), (0, 9, 221), (18, 7, 27), (0, 8, 110),
    (0, 8, 46), (0, 9, 189), (0, 8, 14), (0, 8, 142), (0, 8, 78), (0, 9, 253), (96, 7, 0),
    (0, 8, 81), (0, 8, 17), (21, 8, 131), (18, 7, 31), (0, 8, 113), (0, 8, 49), (0, 9, 195),
    (16, 7, 10), (0, 8, 97), (0, 8, 33), (0, 9, 163), (0, 8, 1), (0, 8, 129), (0, 8, 65),
    (0, 9, 227), (16, 7, 6), (0, 8, 89), (0, 8, 25), (0, 9, 147), (19, 7, 59), (0, 8, 121),
    (0, 8, 57), (0, 9, 211), (17, 7, 17), (0, 8, 105), (0, 8, 41), (0, 9, 179), (0, 8, 9),
    (0, 8, 137), (0, 8, 73), (0, 9, 243), (16, 7, 4), (0, 8, 85), (0, 8, 21), (16, 8, 258),
    (19, 7, 43), (0, 8, 117), (0, 8, 53), (0, 9, 203), (17, 7, 13), (0, 8, 101), (0, 8, 37),
    (0, 9, 171), (0, 8, 5), (0, 8, 133), (0, 8, 69), (0, 9, 235), (16, 7, 8), (0, 8, 93),
    (0, 8, 29), (0, 9, 155), (20, 7, 83), (0, 8, 125), (0, 8, 61), (0, 9, 219), (18, 7, 23),
    (0, 8, 109), (0, 8, 45), (0, 9, 187), (0, 8, 13), (0, 8, 141), (0, 8, 77), (0, 9, 251),
    (16, 7, 3), (0, 8, 83), (0, 8, 19), (21, 8, 195), (19, 7, 35), (0, 8, 115), (0, 8, 51),
    (0, 9, 199), (17, 7, 11), (0, 8, 99), (0, 8, 35), (0, 9, 167), (0, 8, 3), (0, 8, 131),
    (0, 8, 67), (0, 9, 231), (16, 7, 7), (0, 8, 91), (0, 8, 27), (0, 9, 151), (20, 7, 67),
    (0, 8, 123), (0, 8, 59), (0, 9, 215), (18, 7, 19), (0, 8, 107), (0, 8, 43), (0, 9, 183),
    (0, 8, 11), (0, 8, 139), (0, 8, 75), (0, 9, 247), (16, 7, 5), (0, 8, 87), (0, 8, 23),
    (64, 8, 0), (19, 7, 51), (0, 8, 119), (0, 8, 55), (0, 9, 207), (17, 7, 15), (0, 8, 103),
    (0, 8, 39), (0, 9, 175), (0, 8, 7), (0, 8, 135), (0, 8, 71), (0, 9, 239), (16, 7, 9),
    (0, 8, 95), (0, 8, 31), (0, 9, 159), (20, 7, 99), (0, 8, 127), (0, 8, 63), (0, 9, 223),
    (18, 7, 27), (0, 8, 111), (0, 8, 47), (0, 9, 191), (0, 8, 15), (0, 8, 143), (0, 8, 79),
    (0, 9, 255)]"

definition distfix :: "code list" where
  "distfix = map (\<lambda>(p, b, v). \<lparr>c_op = p, c_bits = b, c_val = v\<rparr>) [
    (16, 5, 1), (23, 5, 257), (19, 5, 17), (27, 5, 4097), (17, 5, 5), (25, 5, 1025), (21, 5, 65),
    (29, 5, 16385), (16, 5, 3), (24, 5, 513), (20, 5, 33), (28, 5, 8193), (18, 5, 9),
    (26, 5, 2049), (22, 5, 129), (64, 5, 0), (16, 5, 2), (23, 5, 385), (19, 5, 25), (27, 5, 6145),
    (17, 5, 7), (25, 5, 1537), (21, 5, 97), (29, 5, 24577), (16, 5, 4), (24, 5, 769), (20, 5, 49),
    (28, 5, 12289), (18, 5, 13), (26, 5, 3073), (22, 5, 193), (64, 5, 0)]"

text \<open>The entry of a literal or length symbol: symbols 286 and 287 have codes, but are invalid.\<close>

definition fixed_entry :: "nat \<Rightarrow> nat \<Rightarrow> code" where
  "fixed_entry s l = \<lparr>c_op = (if s < 286 then fst (sym_value LENS s) else 64), c_bits = l,
     c_val = snd (sym_value LENS s)\<rparr>"

text \<open>The symbol whose code starts the nine bits \<open>r\<close>, first bit highest.\<close>

definition fixed_symbol :: "nat \<Rightarrow> nat \<times> nat" where
  "fixed_symbol r = (if r < 96 then (256 + r div 4, 7) else if r < 384 then (r div 2 - 48, 8)
     else if r < 400 then (r div 2 + 88, 8) else (r - 256, 9))"

fun fixed_match :: "nat \<Rightarrow> code list \<Rightarrow> bool" where
  "fixed_match w [] = True"
| "fixed_match w (e # es) =
     (e = fixed_entry (fst (fixed_symbol (bi_reverse w 9))) (snd (fixed_symbol (bi_reverse w 9))) \<and>
      fixed_match (w + 1) es)"

lemma fixed_match_nth:
  "fixed_match w es \<Longrightarrow> i < length es \<Longrightarrow>
    es ! i = fixed_entry (fst (fixed_symbol (bi_reverse (w + i) 9))) (snd (fixed_symbol (bi_reverse (w + i) 9)))"
proof (induction es arbitrary: w i)
  case (Cons e es)
  then show ?case by (cases i) (auto dest: Cons.IH [of "w + 1"])
qed simp

lemma fixed_match_append: "fixed_match w (xs @ ys) \<longleftrightarrow> fixed_match w xs \<and> fixed_match (w + length xs) ys"
  by (induction xs arbitrary: w) auto

lemma lenfix_match_0: "fixed_match 0 (take 64 (drop 0 lenfix))"
  by (simp add: lenfix_def bi_reverse_def bi_rev_step fixed_entry_def fixed_symbol_def lext_def lbase_def)

lemma lenfix_match_1: "fixed_match 64 (take 64 (drop 64 lenfix))"
  by (simp add: lenfix_def bi_reverse_def bi_rev_step fixed_entry_def fixed_symbol_def lext_def lbase_def)

lemma lenfix_match_2: "fixed_match 128 (take 64 (drop 128 lenfix))"
  by (simp add: lenfix_def bi_reverse_def bi_rev_step fixed_entry_def fixed_symbol_def lext_def lbase_def)

lemma lenfix_match_3: "fixed_match 192 (take 64 (drop 192 lenfix))"
  by (simp add: lenfix_def bi_reverse_def bi_rev_step fixed_entry_def fixed_symbol_def lext_def lbase_def)

lemma lenfix_match_4: "fixed_match 256 (take 64 (drop 256 lenfix))"
  by (simp add: lenfix_def bi_reverse_def bi_rev_step fixed_entry_def fixed_symbol_def lext_def lbase_def)

lemma lenfix_match_5: "fixed_match 320 (take 64 (drop 320 lenfix))"
  by (simp add: lenfix_def bi_reverse_def bi_rev_step fixed_entry_def fixed_symbol_def lext_def lbase_def)

lemma lenfix_match_6: "fixed_match 384 (take 64 (drop 384 lenfix))"
  by (simp add: lenfix_def bi_reverse_def bi_rev_step fixed_entry_def fixed_symbol_def lext_def lbase_def)

lemma lenfix_match_7: "fixed_match 448 (take 64 (drop 448 lenfix))"
  by (simp add: lenfix_def bi_reverse_def bi_rev_step fixed_entry_def fixed_symbol_def lext_def lbase_def)

lemma lenfix_nth: "w < 512 \<Longrightarrow> lenfix ! w = (let (s, l) = fixed_symbol (revb 9 w) in fixed_entry s l)"
proof -
  assume w: "w < 512"
  have len: "length lenfix = 512" by (simp add: lenfix_def)
  let ?k = "w div 64"
  have split: "64 * ?k + w mod 64 = w" by simp
  have "?k < 8" using w by (simp add: less_mult_imp_div_less)
  have "fixed_match (64 * ?k) (take 64 (drop (64 * ?k) lenfix))"
  proof -
    have "?k \<in> {0, 1, 2, 3, 4, 5, 6, 7}" using \<open>?k < 8\<close> by auto
    then show ?thesis
      using lenfix_match_0 lenfix_match_1 lenfix_match_2 lenfix_match_3 lenfix_match_4 lenfix_match_5
        lenfix_match_6 lenfix_match_7 by (elim insertE) simp_all
  qed
  moreover have "w mod 64 < 512 - 64 * ?k" using w split by linarith
  ultimately have "lenfix ! (64 * ?k + w mod 64) = fixed_entry (fst (fixed_symbol (bi_reverse (64 * ?k + w mod 64) 9)))
      (snd (fixed_symbol (bi_reverse (64 * ?k + w mod 64) 9)))"
    using fixed_match_nth [of "64 * ?k" "take 64 (drop (64 * ?k) lenfix)" "w mod 64"] len by simp
  then show ?thesis by (simp add: bi_reverse_revb split: prod.split)
qed

text \<open>Nine bits that start with a reversed code.\<close>

lemma nine_bits:
  assumes "l \<le> 9" "x < 2 ^ l" "w mod 2 ^ l = revb l x"
  shows "revb 9 w div 2 ^ (9 - l) = x"
proof -
  have "2 ^ (9 - l) * x < 2 ^ (9 - l) * 2 ^ l" using assms(2) by simp
  also have "\<dots> = 2 ^ 9" using assms(1) by (simp add: power_add [symmetric])
  finally have "2 ^ (9 - l) * x mod 2 ^ 9 div 2 ^ (9 - l) = x" by simp
  then show ?thesis
    using window_prefix_iff [of l 9 "2 ^ (9 - l) * x" w] assms revb_shift [of l 9 x] by simp
qed

text \<open>The fixed code of a symbol before it is reversed.\<close>

definition fixed_code :: "nat \<Rightarrow> nat \<times> nat" where
  "fixed_code s = (if s < 144 then (48 + s, 8) else if s < 256 then (256 + s, 9)
     else if s < 280 then (s - 256, 7) else (s - 88, 8))"

lemma run_nth: "k < n \<Longrightarrow> c + k < 2 ^ l \<Longrightarrow> 1 \<le> l \<Longrightarrow> l \<le> 15 \<Longrightarrow>
  run c l n ! k = \<lparr>fc = revb l (c + k), dl = l\<rparr>"
proof -
  assume a: "k < n" "1 \<le> l" "l \<le> 15"
  have "revb l (c + k) < 2 ^ l" by (rule revb_less)
  also have "(2::nat) ^ l \<le> 2 ^ 15" using a(3) by (intro power_increasing) simp_all
  finally show ?thesis using a bi_reverse_revb [of l "c + k"] by (simp add: run_def)
qed

lemma length_run: "length (run c l n) = n"
  by (simp add: run_def)

lemma static_ltree_nth:
  assumes "s < 288"
  shows "static_ltree ! s = \<lparr>fc = revb (snd (fixed_code s)) (fst (fixed_code s)), dl = snd (fixed_code s)\<rparr>"
proof -
  consider "s < 144" | "144 \<le> s" "s < 256" | "256 \<le> s" "s < 280" | "280 \<le> s" by linarith
  then show ?thesis
    using assms by cases (auto simp: static_ltree_runs nth_append length_run run_nth fixed_code_def)
qed

text \<open>The distance codes, and their entries.\<close>

lemma static_dtree_entry:
  assumes "n < 30"
  shows "dl (static_dtree ! n) = 5 \<and> fc (static_dtree ! n) < 32 \<and>
    distfix ! fc (static_dtree ! n) =
      \<lparr>c_op = fst (sym_value DISTS n), c_bits = 5, c_val = snd (sym_value DISTS n)\<rparr>"
proof -
  have "list_all (\<lambda>n. dl (static_dtree ! n) = 5 \<and> fc (static_dtree ! n) < 32 \<and>
      distfix ! fc (static_dtree ! n) =
        \<lparr>c_op = fst (sym_value DISTS n), c_bits = 5, c_val = snd (sym_value DISTS n)\<rparr>) [0..<30]"
    by code_simp
  with assms show ?thesis by (auto simp: list_all_iff)
qed

text \<open>C21: each code of the fixed trees that the compressor sends is the one the fixed tables of the
  decompressor have: nine bits that start with the code of a literal or length, and five bits
  of a distance, lead to the entry of that symbol.\<close>

theorem fixed_codes_decode:
  "(\<forall>s < 288. \<forall>w < 512. w mod 2 ^ dl (static_ltree ! s) = fc (static_ltree ! s) \<longrightarrow>
      lenfix ! w = fixed_entry s (dl (static_ltree ! s))) \<and>
   (\<forall>n < 30. dl (static_dtree ! n) = 5 \<and> fc (static_dtree ! n) < 32 \<and>
      distfix ! fc (static_dtree ! n) =
        \<lparr>c_op = fst (sym_value DISTS n), c_bits = 5, c_val = snd (sym_value DISTS n)\<rparr>)"
proof (intro conjI allI impI)
  fix s w :: nat
  assume s: "s < 288" and w: "w < 512" and p: "w mod 2 ^ dl (static_ltree ! s) = fc (static_ltree ! s)"
  obtain x l where x: "fixed_code s = (x, l)" by fastforce
  then have b: "l \<le> 9" "x < 2 ^ l" using s by (auto simp: fixed_code_def split: if_splits)
  from p have "w mod 2 ^ l = revb l x" using static_ltree_nth [OF s] x by simp
  with nine_bits [OF b] have r: "revb 9 w div 2 ^ (9 - l) = x" by simp
  have "fixed_symbol (revb 9 w) = (s, l)"
  proof -
    consider "s < 144" | "144 \<le> s" "s < 256" | "256 \<le> s" "s < 280" | "280 \<le> s" by linarith
    then show ?thesis
      using r x s by cases (auto simp: fixed_code_def fixed_symbol_def)
  qed
  then show "lenfix ! w = fixed_entry s (dl (static_ltree ! s))"
    using lenfix_nth [OF w] static_ltree_nth [OF s] x by simp
next
  fix n :: nat assume "n < 30"
  with static_dtree_entry [of n] show "dl (static_dtree ! n) = 5" "fc (static_dtree ! n) < 32"
    "distfix ! fc (static_dtree ! n) =
      \<lparr>c_op = fst (sym_value DISTS n), c_bits = 5, c_val = snd (sym_value DISTS n)\<rparr>"
    by blast+
qed

theorem fixed_codes_decode_witness:
  "dl (static_ltree ! 0) = 8 \<and> lenfix ! 12 = fixed_entry 0 8 \<and> lenfix ! 268 = fixed_entry 0 8"
proof -
  have t: "fc (static_ltree ! 0) = 12" "dl (static_ltree ! 0) = 8" by code_simp+
  then have "lenfix ! 12 = fixed_entry 0 8"
    using fixed_codes_decode [THEN conjunct1, rule_format, of 0 12] by simp
  moreover have "lenfix ! 268 = fixed_entry 0 8"
    using fixed_codes_decode [THEN conjunct1, rule_format, of 0 268] t by simp
  ultimately show ?thesis using t by simp
qed

section \<open>The codes of lengths and distances\<close>

text \<open>What the tables give for a length less 3, and for a distance less 1: the symbol exists, the
  extra bits sent fit, and the decompressor's base value and number of extra bits for the symbol
  lead back.\<close>

definition length_ok :: "nat \<Rightarrow> nat \<Rightarrow> bool" where
  "length_ok lc c \<longleftrightarrow> c < LENGTH_CODES \<and>
     (let x = (if extra_lbits ! c = 0 then 0 else lc - base_length ! c) in
      x < 2 ^ (extra_lbits ! c) \<and> (extra_lbits ! c \<noteq> 0 \<longrightarrow> base_length ! c \<le> lc) \<and>
      sym_value LENS (257 + c) = (16 + extra_lbits ! c, lc + 3 - x))"

definition dist_ok :: "nat \<Rightarrow> nat \<Rightarrow> bool" where
  "dist_ok dist c \<longleftrightarrow> c < D_CODES \<and>
     (let x = dist - base_dist ! c in
      x < 2 ^ (extra_dbits ! c) \<and> base_dist ! c \<le> dist \<and>
      sym_value DISTS c = (16 + extra_dbits ! c, dist + 1 - x))"

text \<open>The loops that fill the tables put each code at the places from its base on.\<close>

lemma fill_codes_spec:
  "fill_codes c xs at (base, codes) = (base', codes', at') \<Longrightarrow>
    take (length codes) codes' = codes \<and> take (length base) base' = base \<and>
    length base' = length base + length xs \<and>
    (\<forall>i. length codes \<le> i \<and> i < length codes' \<longrightarrow>
       (\<exists>k < length xs. codes' ! i = c + k \<and> base' ! (length base + k) \<le> at + (i - length codes) \<and>
          at + (i - length codes) < base' ! (length base + k) + 2 ^ (xs ! k)))"
proof (induction xs arbitrary: c at base codes)
  case (Cons x xs)
  let ?codes = "codes @ replicate (2 ^ x) c"
  from Cons.prems have "fill_codes (c + 1) xs (at + 2 ^ x) (base @ [at], ?codes) = (base', codes', at')" by simp
  note IH = Cons.IH [OF this]
  have codes: "take (length codes) codes' = codes"
    using arg_cong [OF IH [THEN conjunct1], of "take (length codes)"] by (simp add: min_def)
  have base: "take (Suc (length base)) base' = base @ [at]" "length base' = length base + length (x # xs)"
    using IH by simp_all
  have "take (length base) (take (Suc (length base)) base') = base"
    "take (Suc (length base)) base' ! length base = at" unfolding base(1) by simp_all
  then have base': "take (length base) base' = base" "base' ! length base = at" by simp_all
  have "\<exists>k < length (x # xs). codes' ! i = c + k \<and> base' ! (length base + k) \<le> at + (i - length codes) \<and>
      at + (i - length codes) < base' ! (length base + k) + 2 ^ ((x # xs) ! k)"
    if i: "length codes \<le> i" "i < length codes'" for i
  proof (cases "i < length ?codes")
    case True
    have "codes' ! i = ?codes ! i"
      using IH [THEN conjunct1] True by (metis nth_take)
    then have "codes' ! i = c" using True i(1) by (simp add: nth_append)
    moreover have "i - length codes < 2 ^ x" using True i(1) by simp
    ultimately show ?thesis using base' by (intro exI [of _ 0]) simp
  next
    case False
    with IH i obtain k where "k < length xs" "codes' ! i = c + 1 + k"
        "base' ! (length (base @ [at]) + k) \<le> at + 2 ^ x + (i - length ?codes)"
        "at + 2 ^ x + (i - length ?codes) < base' ! (length (base @ [at]) + k) + 2 ^ (xs ! k)"
      by (metis leI)
    with False show ?thesis by (intro exI [of _ "Suc k"]) (simp add: not_less)
  qed
  with codes base base' show ?case by blast
qed simp

lemma length_code_range:
  assumes "lc < 255"
  shows "\<exists>k < 28. length_code ! lc = k \<and> base_length ! k \<le> lc \<and> lc < base_length ! k + 2 ^ (extra_lbits ! k)"
proof -
  obtain base codes at where f: "fill_codes 0 (take (LENGTH_CODES - 1) extra_lbits) 0 ([], []) = (base, codes, at)"
    by (metis prod_cases3)
  with init_lengths_eq have eq: "base_length = base @ [0]" "length_code = codes[at - 1 := LENGTH_CODES - 1]"
    by (simp_all add: init_lengths_def)
  have at: "at = 256" and len: "length base = 28" "length codes = 256" "length extra_lbits = 29"
  proof -
    have "snd (snd (fill_codes 0 (take (LENGTH_CODES - 1) extra_lbits) 0 ([], []))) = 256" by code_simp
    with f show "at = 256" by simp
    show "length base = 28" using arg_cong [OF eq(1), of length] by (simp add: base_length_def)
    show "length codes = 256" using arg_cong [OF eq(2), of length] by (simp add: length_code_def)
    show "length extra_lbits = 29" by (simp add: extra_lbits_def)
  qed
  have "length ([] :: nat list) \<le> lc \<and> lc < length codes" using assms by (simp add: \<open>length codes = 256\<close>)
  with fill_codes_spec [OF f] obtain k where k: "k < length (take (LENGTH_CODES - 1) extra_lbits)"
      "codes ! lc = 0 + k" "base ! (length ([] :: nat list) + k) \<le> 0 + (lc - length ([] :: nat list))"
      "0 + (lc - length ([] :: nat list)) <
        base ! (length ([] :: nat list) + k) + 2 ^ (take (LENGTH_CODES - 1) extra_lbits ! k)"
    by blast
  then have "k < 28" "codes ! lc = k" "base ! k \<le> lc" "lc < base ! k + 2 ^ (extra_lbits ! k)"
    using len by (simp_all add: LENGTH_CODES_def)
  moreover have "length_code ! lc = codes ! lc" using assms at by (simp add: eq(2))
  moreover have "base_length ! k = base ! k" using \<open>k < 28\<close> len by (simp add: eq(1) nth_append)
  ultimately show ?thesis by (intro exI [of _ k]) simp
qed

lemma dist_code_range:
  assumes "i < 256"
  shows "\<exists>k < 16. dist_code ! i = k \<and> base_dist ! k \<le> i \<and> i < base_dist ! k + 2 ^ (extra_dbits ! k)"
    and "2 \<le> i \<Longrightarrow> \<exists>k < 14. dist_code ! (256 + i) = 16 + k \<and> base_dist ! (16 + k) \<le> 128 * i \<and>
      128 * i + 128 \<le> base_dist ! (16 + k) + 2 ^ (extra_dbits ! (16 + k))"
proof -
  let ?xs = "map (\<lambda>x. x - 7) (drop 16 extra_dbits)"
  obtain base codes at where f: "fill_codes 0 (take 16 extra_dbits) 0 ([], []) = (base, codes, at)"
    by (metis prod_cases3)
  obtain base' codes' at' where f': "fill_codes 16 ?xs (at div 2 ^ 7) ([], codes @ replicate (at div 2 ^ 7) 0) =
      (base', codes', at')"
    by (metis prod_cases3)
  from f f' init_dists_eq have eq: "base_dist = base @ map (\<lambda>d. d * 2 ^ 7) base'" "dist_code = codes'"
    by (simp_all add: init_dists_def)
  have at: "at = 256" and lc: "length codes = 256"
  proof -
    have "snd (snd (fill_codes 0 (take 16 extra_dbits) 0 ([], []))) = 256"
      "length (fst (snd (fill_codes 0 (take 16 extra_dbits) 0 ([], [])))) = 256" by code_simp+
    with f show "at = 256" "length codes = 256" by simp_all
  qed
  have le: "length extra_dbits = 30" "length dist_code = 512" by (simp_all add: extra_dbits_def dist_code_def)
  note s = fill_codes_spec [OF f] and s' = fill_codes_spec [OF f']
  from s s' le have lb: "length base = 16" "length base' = 14" by simp_all
  from s assms lc le obtain k where k: "k < 16" "codes ! i = k" "base ! k \<le> i" "i < base ! k + 2 ^ (extra_dbits ! k)"
    by (auto simp: min_def)
  have "codes' ! i = codes ! i"
  proof -
    have "take (length (codes @ replicate (at div 2 ^ 7) 0)) codes' ! i = codes' ! i"
      using assms lc by (intro nth_take) simp
    with s' assms lc show ?thesis by (simp add: nth_append)
  qed
  moreover have "base_dist ! k = base ! k" using k(1) lb by (simp add: eq(1) nth_append)
  ultimately show "\<exists>k < 16. dist_code ! i = k \<and> base_dist ! k \<le> i \<and> i < base_dist ! k + 2 ^ (extra_dbits ! k)"
    using k by (intro exI [of _ k]) (simp add: eq(2))
  assume i: "2 \<le> i"
  have "length (codes @ replicate (at div 2 ^ 7) 0) \<le> 256 + i \<and> 256 + i < length codes'"
    using i assms at lc le eq by simp
  with s' obtain k where k': "k < length ?xs" "codes' ! (256 + i) = 16 + k"
      "base' ! (0 + k) \<le> at div 2 ^ 7 + (256 + i - length (codes @ replicate (at div 2 ^ 7) 0))"
      "at div 2 ^ 7 + (256 + i - length (codes @ replicate (at div 2 ^ 7) 0)) < base' ! (0 + k) + 2 ^ (?xs ! k)"
    by (metis list.size(3))
  then have k: "k < 14" "base' ! k \<le> i" "i < base' ! k + 2 ^ (extra_dbits ! (16 + k) - 7)"
    using i at lc le by simp_all
  have seven: "7 \<le> extra_dbits ! (16 + k)"
  proof -
    have "\<forall>x \<in> set (drop 16 extra_dbits). 7 \<le> x" by (simp add: extra_dbits_def)
    moreover have "extra_dbits ! (16 + k) \<in> set (drop 16 extra_dbits)"
      using k(1) le nth_mem [of k "drop 16 extra_dbits"] by simp
    ultimately show ?thesis by blast
  qed
  then have pow: "(2::nat) ^ (extra_dbits ! (16 + k)) = 128 * 2 ^ (extra_dbits ! (16 + k) - 7)"
    using power_add [of "2::nat" 7 "extra_dbits ! (16 + k) - 7"] by simp
  have "base_dist ! (16 + k) = 128 * base' ! k" using lb k(1) by (simp add: eq(1) nth_append)
  moreover have "128 * (i + 1) \<le> 128 * (base' ! k + 2 ^ (extra_dbits ! (16 + k) - 7))"
    using k(3) by (intro mult_le_mono2) simp
  ultimately show "\<exists>k < 14. dist_code ! (256 + i) = 16 + k \<and> base_dist ! (16 + k) \<le> 128 * i \<and>
      128 * i + 128 \<le> base_dist ! (16 + k) + 2 ^ (extra_dbits ! (16 + k))"
    using k k'(2) eq pow by (intro exI [of _ k]) simp
qed

text \<open>The decompressor's values for the codes.\<close>

lemma length_values:
  "k < 28 \<Longrightarrow> sym_value LENS (257 + k) = (16 + extra_lbits ! k, base_length ! k + 3)"
proof -
  have "list_all (\<lambda>k. sym_value LENS (257 + k) = (16 + extra_lbits ! k, base_length ! k + 3)) [0..<28]"
    by code_simp
  then show "k < 28 \<Longrightarrow> ?thesis" by (simp add: list_all_iff)
qed

lemma dist_values: "k < 30 \<Longrightarrow> sym_value DISTS k = (16 + extra_dbits ! k, base_dist ! k + 1)"
proof -
  have "list_all (\<lambda>k. sym_value DISTS k = (16 + extra_dbits ! k, base_dist ! k + 1)) [0..<30]"
    by code_simp
  then show "k < 30 \<Longrightarrow> ?thesis" by (simp add: list_all_iff)
qed

text \<open>C22: for every match length and every distance of the format, the code and the extra bits that
  \<open>compress_block\<close> sends lead the decompressor's tables back to the length and the distance.\<close>

theorem match_codes_roundtrip:
  "(\<forall>lc < 256. \<exists>c. rd length_code lc = Some c \<and> length_ok lc c) \<and>
   (\<forall>dist < 32768. \<exists>c. d_code dist = Some c \<and> dist_ok dist c)"
proof (intro conjI allI impI)
  have len: "length length_code = 256" by (simp add: length_code_def)
  fix lc :: nat assume lc: "lc < 256"
  show "\<exists>c. rd length_code lc = Some c \<and> length_ok lc c"
  proof (cases "lc = 255")
    case True
    have "length_code ! 255 = 28" "extra_lbits ! 28 = 0" "sym_value LENS 285 = (16, 258)" by code_simp+
    with True len show ?thesis by (simp add: array_simps length_ok_def LENGTH_CODES_def)
  next
    case False
    with lc have "lc < 255" by simp
    from length_code_range [OF this] obtain k where k: "k < 28" "length_code ! lc = k" "base_length ! k \<le> lc"
        "lc < base_length ! k + 2 ^ (extra_lbits ! k)" by blast
    then have "length_ok lc k"
      using length_values [OF k(1)] by (auto simp: length_ok_def LENGTH_CODES_def Let_def)
    with k lc len show ?thesis by (simp add: array_simps)
  qed
next
  have len: "length dist_code = 512" by (simp add: dist_code_def)
  fix dist :: nat assume d: "dist < 32768"
  show "\<exists>c. d_code dist = Some c \<and> dist_ok dist c"
  proof (cases "dist < 256")
    case True
    from dist_code_range(1) [OF True] obtain k where k: "k < 16" "dist_code ! dist = k" "base_dist ! k \<le> dist"
        "dist < base_dist ! k + 2 ^ (extra_dbits ! k)" by blast
    then have "dist_ok dist k" using dist_values [of k] by (simp add: dist_ok_def D_CODES_def)
    with True k len show ?thesis by (simp add: d_code_def array_simps)
  next
    case False
    let ?h = "dist div 128"
    have h: "2 \<le> ?h" "?h < 256" using False d by simp_all
    from dist_code_range(2) [OF h(2,1)] obtain k where k: "k < 14" "dist_code ! (256 + ?h) = 16 + k"
        "base_dist ! (16 + k) \<le> 128 * ?h"
        "128 * ?h + 128 \<le> base_dist ! (16 + k) + 2 ^ (extra_dbits ! (16 + k))" by blast
    have "128 * ?h \<le> dist" "dist < 128 * ?h + 128" by simp_all
    with k have "base_dist ! (16 + k) \<le> dist" "dist < base_dist ! (16 + k) + 2 ^ (extra_dbits ! (16 + k))"
      by linarith+
    with k(1) have "dist_ok dist (16 + k)" using dist_values [of "16 + k"] by (simp add: dist_ok_def D_CODES_def)
    with False h len k show ?thesis by (simp add: d_code_def array_simps)
  qed
qed

theorem match_codes_roundtrip_witness:
  "length_ok 8 8 \<and> dist_ok 32767 29"
proof -
  have v: "rd length_code 8 = Some 8" "d_code 32767 = Some 29" by code_simp+
  from match_codes_roundtrip [THEN conjunct1, rule_format, of 8] have "length_ok 8 8" using v(1) by simp
  moreover from match_codes_roundtrip [THEN conjunct2, rule_format, of 32767] have "dist_ok 32767 29"
    using v(2) by simp
  ultimately show ?thesis ..
qed

end
