(* ===== verification/Trees_Bits.thy ===== *)
theory Trees_Bits imports Trees_Codes begin

text \<open>
  \<^verbatim>\<open>libz_u/trees.c\<close>: the bit buffer of the compressor, from \<open>send_bits\<close> to \<open>copy_block\<close>.  Its
  abstract view is the list of bits sent; the lemmas show that each operation appends its
  bits to it as long as the pending buffer has room, and changes no byte above what it uses.
  The contract of a bit sink is the locale \<open>bit_sink\<close>; the lemmas on blocks are proved in it.
\<close>

section \<open>The operations\<close>

record ostate =
  pending_buf :: "nat list"   \<comment> \<open>bytes\<close>
  pending :: nat
  bi_buf :: nat               \<comment> \<open>\<open>ush\<close>\<close>
  bi_valid :: nat

definition Buf_size :: nat where "Buf_size = 16"

definition put_byte :: "'a ostate_scheme \<Rightarrow> nat \<Rightarrow> 'a ostate_scheme option" where
  "put_byte s c =
     do { buf \<leftarrow> wr (pending_buf s) (pending s) (c mod 256);
          Some (s\<lparr>pending_buf := buf, pending := pending s + 1\<rparr>) }"

definition put_short :: "'a ostate_scheme \<Rightarrow> nat \<Rightarrow> 'a ostate_scheme option" where
  "put_short s w = do { s \<leftarrow> put_byte s (w mod 256); put_byte s (w mod 65536 div 256) }"

definition send_bits :: "'a ostate_scheme \<Rightarrow> nat \<Rightarrow> nat \<Rightarrow> 'a ostate_scheme option" where
  "send_bits s value len =
    (let w = (bi_buf s OR push_bit (bi_valid s) (value mod 65536)) mod 65536 in
     if bi_valid s + len > Buf_size then
       do { s' \<leftarrow> put_short s w;
            Some (s'\<lparr>bi_buf := value mod 65536 div 2 ^ (Buf_size - bi_valid s),
                    bi_valid := bi_valid s + len - Buf_size\<rparr>) }
     else Some (s\<lparr>bi_buf := w, bi_valid := bi_valid s + len\<rparr>))"

definition send_code :: "'a ostate_scheme \<Rightarrow> nat \<Rightarrow> ct_data list \<Rightarrow> 'a ostate_scheme option" where
  "send_code s c tree = do { e \<leftarrow> rd tree c; send_bits s (fc e) (dl e) }"

definition bi_flush :: "'a ostate_scheme \<Rightarrow> 'a ostate_scheme option" where
  "bi_flush s =
    (if bi_valid s = 16 then
       do { s \<leftarrow> put_short s (bi_buf s); Some (s\<lparr>bi_buf := 0, bi_valid := 0\<rparr>) }
     else if bi_valid s \<ge> 8 then
       do { s \<leftarrow> put_byte s (bi_buf s);
            Some (s\<lparr>bi_buf := bi_buf s div 2 ^ 8, bi_valid := bi_valid s - 8\<rparr>) }
     else Some s)"

definition bi_windup :: "'a ostate_scheme \<Rightarrow> 'a ostate_scheme option" where
  "bi_windup s =
     do { s \<leftarrow> (if bi_valid s > 8 then put_short s (bi_buf s)
                else if bi_valid s > 0 then put_byte s (bi_buf s) else Some s);
          Some (s\<lparr>bi_buf := 0, bi_valid := 0\<rparr>) }"

text \<open>\<open>while (len--) put_byte(s, *buf++);\<close>\<close>

fun put_bytes :: "'a ostate_scheme \<Rightarrow> nat list \<Rightarrow> nat \<Rightarrow> 'a ostate_scheme option" where
  "put_bytes s buf 0 = Some s"
| "put_bytes s buf (Suc len) =
     (case buf of [] \<Rightarrow> None | b # buf \<Rightarrow> do { s \<leftarrow> put_byte s b; put_bytes s buf len })"

definition copy_block :: "'a ostate_scheme \<Rightarrow> nat list \<Rightarrow> nat \<Rightarrow> bool \<Rightarrow> 'a ostate_scheme option" where
  "copy_block s buf len header =
     do { s \<leftarrow> bi_windup s;
          s \<leftarrow> (if header then
                  do { s \<leftarrow> put_short s (len mod 65536); put_short s (65535 - len mod 65536) }
                else Some s);
          put_bytes s buf len }"

definition STORED_BLOCK :: nat where "STORED_BLOCK = 0"
definition STATIC_TREES :: nat where "STATIC_TREES = 1"
definition DYN_TREES :: nat where "DYN_TREES = 2"

definition tr_stored_block :: "'a ostate_scheme \<Rightarrow> nat list \<Rightarrow> nat \<Rightarrow> nat \<Rightarrow> 'a ostate_scheme option" where
  "tr_stored_block s buf stored_len fin =
     do { s \<leftarrow> send_bits s (STORED_BLOCK * 2 + fin) 3;
          copy_block s buf (stored_len mod 2 ^ 32) True }"

definition tr_flush_bits :: "'a ostate_scheme \<Rightarrow> 'a ostate_scheme option" where
  "tr_flush_bits s = bi_flush s"

section \<open>Bits\<close>

text \<open>The low \<open>n\<close> bits of a number, first bit lowest.\<close>

definition bits_of :: "nat \<Rightarrow> nat \<Rightarrow> bool list" where
  "bits_of n x = map (bit x) [0..<n]"

lemma length_bits_of [simp]: "length (bits_of n x) = n"
  by (simp add: bits_of_def)

lemma bits_of_0 [simp]: "bits_of 0 x = []"
  by (simp add: bits_of_def)

lemma bits_of_add: "bits_of (m + n) x = bits_of m x @ bits_of n (x div 2 ^ m)"
proof -
  have "map (bit x) [m..<m + n] = map (bit (x div 2 ^ m)) [0..<n]"
    by (rule nth_equalityI) (simp_all add: bit_div_power)
  then show ?thesis by (simp add: bits_of_def upt_add_eq_append [of 0 m n])
qed

lemma bits_of_mod: "n \<le> m \<Longrightarrow> bits_of n (x mod 2 ^ m) = bits_of n x"
  by (simp add: bits_of_def bit_mod_power)

lemma bits_of_append:
  assumes "a < 2 ^ m"
  shows "bits_of (m + n) (a + 2 ^ m * b) = bits_of m a @ bits_of n b"
proof -
  have "bits_of m (a + 2 ^ m * b) = bits_of m ((a + 2 ^ m * b) mod 2 ^ m)"
    by (rule bits_of_mod [OF order_refl, symmetric])
  also have "\<dots> = bits_of m a" using assms by simp
  finally show ?thesis using assms by (simp add: bits_of_add)
qed

lemma bits_of_inj: "x < 2 ^ n \<Longrightarrow> y < 2 ^ n \<Longrightarrow> bits_of n x = bits_of n y \<longleftrightarrow> x = y"
proof -
  assume a: "x < 2 ^ n" "y < 2 ^ n"
  have "x = y" if e: "bits_of n x = bits_of n y"
  proof (rule bit_eqI)
    fix i
    have "bit x i \<longleftrightarrow> i < n \<and> bit x i" "bit y i \<longleftrightarrow> i < n \<and> bit y i"
      using a bit_mod_power [of x n i] bit_mod_power [of y n i] by simp_all
    moreover have "bit x i = bit y i" if "i < n"
      using arg_cong [OF e, of "\<lambda>l. l ! i"] that by (simp add: bits_of_def)
    ultimately show "bit x i = bit y i" by blast
  qed
  then show ?thesis by blast
qed

section \<open>The bits sent\<close>

definition bytes_bits :: "nat list \<Rightarrow> bool list" where
  "bytes_bits bs = concat (map (bits_of 8) bs)"

lemma bytes_bits_append [simp]: "bytes_bits (xs @ ys) = bytes_bits xs @ bytes_bits ys"
  by (simp add: bytes_bits_def)

lemma bytes_bits_simps [simp]: "bytes_bits [] = []" "bytes_bits (b # bs) = bits_of 8 b @ bytes_bits bs"
  by (simp_all add: bytes_bits_def)

lemma length_bytes_bits [simp]: "length (bytes_bits bs) = 8 * length bs"
  by (induction bs) simp_all

definition out_bits :: "'a ostate_scheme \<Rightarrow> bool list" where
  "out_bits s = bytes_bits (take (pending s) (pending_buf s)) @ bits_of (bi_valid s) (bi_buf s)"

definition bits_ok :: "'a ostate_scheme \<Rightarrow> bool" where
  "bits_ok s \<longleftrightarrow> pending s \<le> length (pending_buf s) \<and> bi_valid s \<le> 16 \<and> bi_buf s < 2 ^ bi_valid s \<and>
     (\<forall>b \<in> set (pending_buf s). b < 256)"

text \<open>\<open>sends s bs s'\<close>: from \<open>s\<close> to \<open>s'\<close> the bits \<open>bs\<close> have been sent, and nothing else changed but
  the bytes up to the new end.\<close>

definition sends :: "'a ostate_scheme \<Rightarrow> bool list \<Rightarrow> 'a ostate_scheme \<Rightarrow> bool" where
  "sends s bs s' \<longleftrightarrow> bits_ok s' \<and> out_bits s' = out_bits s @ bs \<and>
     length (pending_buf s') = length (pending_buf s) \<and> pending s \<le> pending s' \<and>
     drop (pending s') (pending_buf s') = drop (pending s') (pending_buf s) \<and>
     ostate.more s' = ostate.more s"

definition room :: "'a ostate_scheme \<Rightarrow> nat \<Rightarrow> bool" where
  "room s n \<longleftrightarrow> length (out_bits s) + n \<le> 8 * length (pending_buf s)"

lemma length_out_bits: "bits_ok s \<Longrightarrow> length (out_bits s) = 8 * pending s + bi_valid s"
  by (simp add: out_bits_def bits_ok_def)

lemma sends_refl: "bits_ok s \<Longrightarrow> sends s [] s"
  by (simp add: sends_def)

lemma sends_trans:
  assumes "sends s as s'" "sends s' bs s''"
  shows "sends s (as @ bs) s''"
proof -
  from assms have d: "drop (pending s') (pending_buf s') = drop (pending s') (pending_buf s)"
    "drop (pending s'') (pending_buf s'') = drop (pending s'') (pending_buf s')" "pending s' \<le> pending s''"
    by (auto simp: sends_def)
  have "drop (pending s'' - pending s') (drop (pending s') (pending_buf s')) =
      drop (pending s'' - pending s') (drop (pending s') (pending_buf s))" unfolding d(1) ..
  then have "drop (pending s'') (pending_buf s') = drop (pending s'') (pending_buf s)"
    using d(3) by simp
  with assms d show ?thesis by (auto simp: sends_def)
qed

lemma sends_room: "sends s bs s' \<Longrightarrow> room s (length bs + n) \<longleftrightarrow> room s' n"
  by (auto simp: sends_def room_def)

lemma put_byte_ok:
  assumes "bits_ok s" "pending s < length (pending_buf s)"
  shows "put_byte s c = Some (s\<lparr>pending_buf := (pending_buf s)[pending s := c mod 256],
    pending := pending s + 1\<rparr>)"
  using assms by (simp add: put_byte_def array_simps)

lemma put_short_ok:
  assumes "pending s + 1 < length (pending_buf s)"
  shows "put_short s w = Some (s\<lparr>pending_buf := (pending_buf s)[pending s := w mod 256,
    pending s + 1 := w mod 65536 div 256], pending := pending s + 2\<rparr>)"
proof -
  have "w mod 65536 div 256 < 256" by (simp add: less_mult_imp_div_less)
  with assms show ?thesis by (simp add: put_short_def put_byte_def array_simps)
qed

lemma take_update_snoc: "n < length xs \<Longrightarrow> take (Suc n) (xs[n := v]) = take n xs @ [v]"
  by (simp add: take_Suc_conv_app_nth)

lemma set_update_le: "\<forall>b \<in> set xs. P b \<Longrightarrow> P v \<Longrightarrow> \<forall>b \<in> set (xs[i := v]). P b"
  using set_update_subset_insert [of xs i v] by auto

text \<open>The refinement of \<open>send_bits\<close>.\<close>

lemma send_bits_sends:
  assumes ok: "bits_ok s" and v: "value < 2 ^ len" and len: "len \<le> 16" and room: "room s len"
  shows "\<exists>s'. send_bits s value len = Some s' \<and> sends s (bits_of len value) s'"
proof -
  let ?b = "bi_buf s" and ?n = "bi_valid s"
  from ok have b: "?b < 2 ^ ?n" "?n \<le> 16" by (simp_all add: bits_ok_def)
  have "value < 2 ^ 16" using v len power_increasing [of len 16 "2::nat"] by simp
  then have vm: "value mod 65536 = value" by simp
  have w: "(?b OR push_bit ?n (value mod 65536)) = ?b + 2 ^ ?n * value"
    using nat_or_push_bit [OF b(1), of "value"] vm by (simp add: mult.commute)
  show ?thesis
  proof (cases "?n + len > 16")
    case False
    have "value + 1 \<le> 2 ^ len" using v by simp
    then have "2 ^ ?n * (value + 1) \<le> 2 ^ ?n * 2 ^ len" by (rule mult_le_mono2)
    then have lt: "?b + 2 ^ ?n * value < 2 ^ (?n + len)" using b by (simp add: power_add)
    also have "\<dots> \<le> 2 ^ 16" using False by (intro power_increasing) simp_all
    finally have "(?b + 2 ^ ?n * value) mod 65536 = ?b + 2 ^ ?n * value" by simp
    with False w have "send_bits s value len = Some (s\<lparr>bi_buf := ?b + 2 ^ ?n * value, bi_valid := ?n + len\<rparr>)"
      by (simp add: send_bits_def Buf_size_def Let_def)
    moreover have "sends s (bits_of len value) (s\<lparr>bi_buf := ?b + 2 ^ ?n * value, bi_valid := ?n + len\<rparr>)"
      using ok lt False b by (simp add: sends_def bits_ok_def out_bits_def bits_of_append)
    ultimately show ?thesis by blast
  next
    case True
    let ?w = "(?b + 2 ^ ?n * value) mod 65536" and ?r = "value div 2 ^ (16 - ?n)"
    have pend: "pending s + 1 < length (pending_buf s)"
      using room True length_out_bits [OF ok] by (simp add: room_def)
    define buf where "buf = (pending_buf s)[pending s := ?w mod 256, pending s + 1 := ?w mod 65536 div 256]"
    have buf: "length buf = length (pending_buf s)" "drop (pending s + 2) buf = drop (pending s + 2) (pending_buf s)"
      by (simp_all add: buf_def)
    let ?s = "s\<lparr>pending_buf := buf, pending := pending s + 2, bi_buf := ?r, bi_valid := ?n + len - 16\<rparr>"
    have send: "send_bits s value len = Some ?s"
      using True w vm put_short_ok [OF pend, of ?w] by (simp add: send_bits_def Buf_size_def Let_def buf_def)
    have bytes: "take (pending s + 2) buf = take (pending s) (pending_buf s) @ [?w mod 256, ?w div 256]"
      using pend by (simp add: buf_def take_update_snoc)
    have "bits_of 8 (?w mod 256) @ bits_of 8 (?w div 256) = bits_of 16 ?w"
      using bits_of_add [of 8 8 ?w] bits_of_mod [of 8 8 ?w] by simp
    also have "\<dots> = bits_of (?n + (16 - ?n)) (?b + 2 ^ ?n * value)"
      using bits_of_mod [of 16 16 "?b + 2 ^ ?n * value"] b by simp
    also have "\<dots> = bits_of ?n ?b @ bits_of (16 - ?n) value" using b(1) by (rule bits_of_append)
    finally have sixteen: "bits_of 8 (?w mod 256) @ bits_of 8 (?w div 256) = bits_of ?n ?b @ bits_of (16 - ?n) value" .
    have "bits_of len value = bits_of (16 - ?n) value @ bits_of (?n + len - 16) ?r"
      using bits_of_add [of "16 - ?n" "?n + len - 16" "value"] True b by simp
    with bytes sixteen have "out_bits ?s = out_bits s @ bits_of len value"
      by (simp add: out_bits_def)
    moreover have "bits_ok ?s"
    proof -
      have "value < 2 ^ (16 - ?n) * 2 ^ (?n + len - 16)"
        using v True b by (simp add: power_add [symmetric])
      then have "?r < 2 ^ (?n + len - 16)" by (simp add: less_mult_imp_div_less mult.commute)
      moreover have "\<forall>b \<in> set buf. b < 256"
        using ok unfolding buf_def by (intro set_update_le) (auto simp: bits_ok_def less_mult_imp_div_less)
      ultimately show ?thesis using pend len b buf by (simp add: bits_ok_def)
    qed
    ultimately have "sends s (bits_of len value) ?s"
      using pend buf by (simp add: sends_def)
    with send show ?thesis by blast
  qed
qed


section \<open>Flushing and stored blocks\<close>

lemma bits_of_zero: "bits_of k 0 = replicate k False"
  by (rule nth_equalityI) (simp_all add: bits_of_def)

lemma bits_of_pad: "x < 2 ^ n \<Longrightarrow> bits_of (n + k) x = bits_of n x @ replicate k False"
  by (simp add: bits_of_add bits_of_zero)

lemma put_byte_sends:
  assumes ok: "bits_ok s" and b: "bi_buf s < 2 ^ 8" "bi_valid s \<le> 8" and room: "pending s < length (pending_buf s)"
  shows "\<exists>s'. put_byte s (bi_buf s) = Some s' \<and>
    sends s (replicate (8 - bi_valid s) False) (s'\<lparr>bi_buf := 0, bi_valid := 0\<rparr>)"
proof -
  define buf where "buf = (pending_buf s)[pending s := bi_buf s mod 256]"
  have buf: "length buf = length (pending_buf s)" "drop (pending s + 1) buf = drop (pending s + 1) (pending_buf s)"
      "take (pending s + 1) buf = take (pending s) (pending_buf s) @ [bi_buf s]"
    using room b(1) by (simp_all add: buf_def take_update_snoc)
  have "\<forall>b \<in> set buf. b < 256"
    using ok unfolding buf_def by (intro set_update_le) (auto simp: bits_ok_def)
  moreover have "bits_of 8 (bi_buf s) = bits_of (bi_valid s) (bi_buf s) @ replicate (8 - bi_valid s) False"
    using bits_of_pad [of "bi_buf s" "bi_valid s" "8 - bi_valid s"] ok b by (simp add: bits_ok_def)
  ultimately show ?thesis
    using put_byte_ok [OF ok room, of "bi_buf s"] buf room
    by (simp add: buf_def [symmetric] sends_def bits_ok_def out_bits_def)
qed

lemma put_short_sends:
  assumes ok: "bits_ok s" and w: "w < 2 ^ 16" and room: "pending s + 1 < length (pending_buf s)"
    and bits: "bits_of 16 w = bits_of (bi_valid s) (bi_buf s) @ bs"
  shows "\<exists>s'. put_short s w = Some s' \<and> sends s bs (s'\<lparr>bi_buf := 0, bi_valid := 0\<rparr>)"
proof -
  define buf where "buf = (pending_buf s)[pending s := w mod 256, pending s + 1 := w mod 65536 div 256]"
  have buf: "length buf = length (pending_buf s)" "drop (pending s + 2) buf = drop (pending s + 2) (pending_buf s)"
      "take (pending s + 2) buf = take (pending s) (pending_buf s) @ [w mod 256, w div 256]"
    using room w by (simp_all add: buf_def take_update_snoc)
  have "\<forall>b \<in> set buf. b < 256"
    using ok unfolding buf_def by (intro set_update_le) (auto simp: bits_ok_def less_mult_imp_div_less)
  moreover have "bits_of 8 (w mod 256) @ bits_of 8 (w div 256) = bits_of 16 w"
    using bits_of_add [of 8 8 w] bits_of_mod [of 8 8 w] by simp
  moreover have "put_short s w = Some (s\<lparr>pending_buf := buf, pending := pending s + 2\<rparr>)"
    using put_short_ok [OF room, of w] by (simp only: buf_def)
  ultimately show ?thesis
    using buf room bits by (simp add: sends_def bits_ok_def out_bits_def)
qed

lemma bi_flush_sends:
  assumes ok: "bits_ok s" and room: "room s 0"
  shows "\<exists>s'. bi_flush s = Some s' \<and> sends s [] s' \<and> bi_valid s' < 8"
proof -
  from room have r: "8 * pending s + bi_valid s \<le> 8 * length (pending_buf s)"
    using length_out_bits [OF ok] by (simp add: room_def)
  from ok have b: "bi_buf s < 2 ^ bi_valid s" "bi_valid s \<le> 16" by (simp_all add: bits_ok_def)
  consider "bi_valid s = 16" | "8 \<le> bi_valid s" "bi_valid s < 16" | "bi_valid s < 8" using b by linarith
  then show ?thesis
  proof cases
    case 1
    with put_short_sends [OF ok, of "bi_buf s" "[]"] b r show ?thesis
      by (auto simp: bi_flush_def)
  next
    case 2
    have room: "pending s < length (pending_buf s)" using r 2 by simp
    define buf where "buf = (pending_buf s)[pending s := bi_buf s mod 256]"
    have buf: "length buf = length (pending_buf s)" "drop (pending s + 1) buf = drop (pending s + 1) (pending_buf s)"
        "take (pending s + 1) buf = take (pending s) (pending_buf s) @ [bi_buf s mod 256]"
      using room by (simp_all add: buf_def take_update_snoc)
    have "\<forall>b \<in> set buf. b < 256"
      using ok unfolding buf_def by (intro set_update_le) (auto simp: bits_ok_def)
    moreover have "bits_of (bi_valid s) (bi_buf s) = bits_of 8 (bi_buf s mod 256) @ bits_of (bi_valid s - 8) (bi_buf s div 256)"
      using bits_of_add [of 8 "bi_valid s - 8" "bi_buf s"] bits_of_mod [of 8 8 "bi_buf s"] 2 by simp
    moreover have "bi_buf s div 256 < 2 ^ (bi_valid s - 8)"
    proof -
      have "bi_buf s < 2 ^ (bi_valid s - 8) * 2 ^ 8" using b(1) 2 by (simp only: power_add [symmetric]) simp
      then show ?thesis by (simp add: less_mult_imp_div_less)
    qed
    moreover have "bi_valid s - 8 < 8" using 2 by linarith
    ultimately show ?thesis
      using put_byte_ok [OF ok room, of "bi_buf s"] buf room 2
      by (simp add: bi_flush_def buf_def [symmetric] sends_def bits_ok_def out_bits_def)
  next
    case 3
    with ok show ?thesis by (simp add: bi_flush_def sends_refl)
  qed
qed

text \<open>The bits to the next byte boundary.\<close>

definition pad_bits :: "nat \<Rightarrow> nat" where
  "pad_bits n = (8 - n mod 8) mod 8"

lemma pad_bits_le: "1 \<le> n \<Longrightarrow> n \<le> 8 \<Longrightarrow> pad_bits (8 * p + n) = 8 - n" "9 \<le> n \<Longrightarrow> n \<le> 16 \<Longrightarrow> pad_bits (8 * p + n) = 16 - n"
  "pad_bits (8 * p) = 0"
proof -
  assume n: "1 \<le> n" "n \<le> 8"
  then show "pad_bits (8 * p + n) = 8 - n" by (cases "n = 8") (simp_all add: pad_bits_def)
next
  assume n: "9 \<le> n" "n \<le> 16"
  then have "n mod 8 = (n - 8) mod 8" by (simp add: le_mod_geq)
  with n show "pad_bits (8 * p + n) = 16 - n" by (cases "n = 16") (simp_all add: pad_bits_def)
qed (simp add: pad_bits_def)

lemma bi_windup_sends:
  assumes ok: "bits_ok s" and room: "room s (pad_bits (length (out_bits s)))"
  shows "\<exists>s'. bi_windup s = Some s' \<and> sends s (replicate (pad_bits (length (out_bits s))) False) s' \<and> bi_valid s' = 0"
proof -
  note len = length_out_bits [OF ok]
  from ok have b: "bi_buf s < 2 ^ bi_valid s" "bi_valid s \<le> 16" by (simp_all add: bits_ok_def)
  consider "bi_valid s = 0" | "1 \<le> bi_valid s" "bi_valid s \<le> 8" | "9 \<le> bi_valid s" using b by linarith
  then show ?thesis
  proof cases
    case 1
    then have "bi_buf s = 0" using b by simp
    with 1 ok len show ?thesis
      by (simp add: bi_windup_def pad_bits_le sends_def bits_ok_def out_bits_def)
  next
    case 2
    have "(2::nat) ^ bi_valid s \<le> 2 ^ 8" using 2 by (intro power_increasing) simp_all
    then have "bi_buf s < 2 ^ 8" by (rule less_le_trans [OF b(1)])
    moreover have "pending s < length (pending_buf s)"
      using room len 2 by (simp add: room_def pad_bits_le)
    ultimately show ?thesis
      using put_byte_sends [OF ok _ 2(2)] len 2 by (fastforce simp: bi_windup_def pad_bits_le)
  next
    case 3
    have "(2::nat) ^ bi_valid s \<le> 2 ^ 16" using b by (intro power_increasing) simp_all
    then have w: "bi_buf s < 2 ^ 16" by (rule less_le_trans [OF b(1)])
    have "bits_of 16 (bi_buf s) = bits_of (bi_valid s) (bi_buf s) @ replicate (16 - bi_valid s) False"
      using bits_of_pad [OF b(1), of "16 - bi_valid s"] b by simp
    moreover have "pending s + 1 < length (pending_buf s)"
      using room len 3 b by (simp add: room_def pad_bits_le)
    ultimately show ?thesis
      using put_short_sends [OF ok w] len 3 b by (fastforce simp: bi_windup_def pad_bits_le)
  qed
qed


lemma sends_byte:
  assumes ok: "bits_ok s" and al: "bi_valid s = 0" and c: "c < 256" and room: "pending s < length (pending_buf s)"
  shows "\<exists>s'. put_byte s c = Some s' \<and> sends s (bits_of 8 c) s' \<and> bi_valid s' = 0"
proof -
  define buf where "buf = (pending_buf s)[pending s := c mod 256]"
  have buf: "length buf = length (pending_buf s)" "drop (pending s + 1) buf = drop (pending s + 1) (pending_buf s)"
      "take (pending s + 1) buf = take (pending s) (pending_buf s) @ [c]"
    using room c by (simp_all add: buf_def take_update_snoc)
  have "\<forall>b \<in> set buf. b < 256"
    using ok unfolding buf_def by (intro set_update_le) (auto simp: bits_ok_def)
  moreover have "put_byte s c = Some (s\<lparr>pending_buf := buf, pending := pending s + 1\<rparr>)"
    using put_byte_ok [OF ok room, of c] by (simp only: buf_def)
  ultimately show ?thesis
    using buf room al ok by (simp add: sends_def bits_ok_def out_bits_def)
qed

lemma put_bytes_sends:
  assumes "bits_ok s" "bi_valid s = 0" "n \<le> length buf" "\<forall>b \<in> set buf. b < 256" "room s (8 * n)"
  shows "\<exists>s'. put_bytes s buf n = Some s' \<and> sends s (bytes_bits (take n buf)) s' \<and> bi_valid s' = 0"
  using assms
proof (induction n arbitrary: s buf)
  case 0
  then show ?case by (simp add: sends_refl)
next
  case (Suc n)
  then obtain b bs where b: "buf = b # bs" "b < 256" by (cases buf) auto
  have "pending s < length (pending_buf s)"
    using Suc.prems(5) length_out_bits [OF Suc.prems(1)] by (simp add: room_def)
  with sends_byte [OF Suc.prems(1,2) b(2)] obtain s1 where
    s1: "put_byte s b = Some s1" "sends s (bits_of 8 b) s1" "bi_valid s1 = 0" by blast
  have "room s1 (8 * n)" using sends_room [OF s1(2), of "8 * n"] Suc.prems(5) by simp
  moreover have "bits_ok s1" using s1(2) by (simp add: sends_def)
  ultimately obtain s2 where
    "put_bytes s1 bs n = Some s2" "sends s1 (bytes_bits (take n bs)) s2" "bi_valid s2 = 0"
    using Suc.IH [of s1 bs] Suc.prems(3,4) s1(3) b(1) by auto
  with s1 b sends_trans [OF s1(2)] show ?case by auto
qed

text \<open>What a stored block is made of: padding, the length and its complement, the bytes.\<close>

definition stored_bits :: "nat \<Rightarrow> nat list \<Rightarrow> bool list" where
  "stored_bits at bs = replicate (pad_bits at) False @
     bytes_bits [length bs mod 256, length bs div 256, 255 - length bs mod 256, 255 - length bs div 256] @ bytes_bits bs"

lemma short_bytes: "w < 65536 \<Longrightarrow> bits_of 16 w = bytes_bits [w mod 256, w div 256]"
  using bits_of_add [of 8 8 w] bits_of_mod [of 8 8 w] by simp

lemma sends_short:
  assumes ok: "bits_ok s" and al: "bi_valid s = 0" and w: "w < 65536" and room: "room s 16"
  shows "\<exists>s'. put_short s w = Some s' \<and> sends s (bits_of 16 w) s' \<and> bi_valid s' = 0"
proof -
  have p: "pending s < length (pending_buf s)"
    using room length_out_bits [OF ok] by (simp add: room_def)
  from sends_byte [OF ok al _ p, of "w mod 256"] obtain s1 where
    s1: "put_byte s (w mod 256) = Some s1" "sends s (bits_of 8 (w mod 256)) s1" "bi_valid s1 = 0" by auto
  then have ok1: "bits_ok s1" by (simp add: sends_def)
  have "room s1 8" using sends_room [OF s1(2), of 8] room by simp
  then have p1: "pending s1 < length (pending_buf s1)"
    using length_out_bits [OF ok1] by (simp add: room_def)
  have "w div 256 < 256" using w by simp
  from sends_byte [OF ok1 s1(3) this p1] obtain s2 where
    s2: "put_byte s1 (w div 256) = Some s2" "sends s1 (bits_of 8 (w div 256)) s2" "bi_valid s2 = 0" by auto
  with s1 w sends_trans [OF s1(2) s2(2)] show ?thesis
    by (simp add: put_short_def short_bytes)
qed

lemma copy_block_sends:
  assumes ok: "bits_ok s" and n: "length buf < 65536" "\<forall>b \<in> set buf. b < 256"
    and room: "room s (length (stored_bits (length (out_bits s)) buf))"
  shows "\<exists>s'. copy_block s buf (length buf) True = Some s' \<and>
    sends s (stored_bits (length (out_bits s)) buf) s' \<and> bi_valid s' = 0"
proof -
  let ?p = "pad_bits (length (out_bits s))" and ?n = "length buf"
  from room have r: "room s (?p + (32 + 8 * ?n))" by (simp add: stored_bits_def add.assoc)
  then have "room s ?p" by (simp add: room_def)
  from bi_windup_sends [OF ok this] obtain s1 where
    s1: "bi_windup s = Some s1" "sends s (replicate ?p False) s1" "bi_valid s1 = 0" by blast
  have r1: "room s1 (16 + (16 + 8 * ?n))"
    using sends_room [OF s1(2), of "32 + 8 * ?n"] r by simp
  then have "room s1 16" by (simp add: room_def)
  moreover have "bits_ok s1" using s1(2) by (simp add: sends_def)
  ultimately obtain s2 where s2: "put_short s1 ?n = Some s2" "sends s1 (bits_of 16 ?n) s2" "bi_valid s2 = 0"
    using sends_short [of s1 ?n] s1(3) n(1) by auto
  have r2: "room s2 (16 + 8 * ?n)" using sends_room [OF s2(2), of "16 + 8 * ?n"] r1 by simp
  then have "room s2 16" by (simp add: room_def)
  moreover have "bits_ok s2" using s2(2) by (simp add: sends_def)
  ultimately obtain s3 where
    s3: "put_short s2 (65535 - ?n) = Some s3" "sends s2 (bits_of 16 (65535 - ?n)) s3" "bi_valid s3 = 0"
    using sends_short [OF _ s2(3), of "65535 - ?n"] diff_le_self [of 65535 ?n] by fastforce
  have "room s3 (8 * ?n)" using sends_room [OF s3(2)] r2 by simp
  moreover have "bits_ok s3" using s3(2) by (simp add: sends_def)
  ultimately obtain s4 where s4: "put_bytes s3 buf ?n = Some s4" "sends s3 (bytes_bits buf) s4" "bi_valid s4 = 0"
    using put_bytes_sends [of s3 ?n buf] s3(3) n(2) by auto
  have split: "(65535 - ?n) mod 256 = 255 - ?n mod 256" "(65535 - ?n) div 256 = 255 - ?n div 256"
  proof -
    have "?n = 256 * (?n div 256) + ?n mod 256" "?n div 256 \<le> 255" "?n mod 256 \<le> 255"
      using n(1) by (auto simp: less_Suc_eq_le [symmetric])
    then have e: "65535 - ?n = 256 * (255 - ?n div 256) + (255 - ?n mod 256)" by linarith
    have lt: "255 - ?n mod 256 < 256" by simp
    show "(65535 - ?n) mod 256 = 255 - ?n mod 256" unfolding e using lt by (simp only: mod_mult_self4 mod_less)
    show "(65535 - ?n) div 256 = 255 - ?n div 256" unfolding e using lt by (simp only: div_mult_self4)
  qed
  have bits: "stored_bits (length (out_bits s)) buf =
      ((replicate ?p False @ bits_of 16 ?n) @ bits_of 16 (65535 - ?n)) @ bytes_bits buf"
    using short_bytes [of ?n] short_bytes [of "65535 - ?n"] split n(1) by (simp add: stored_bits_def)
  have "copy_block s buf ?n True = Some s4"
    using s1(1) s2(1) s3(1) s4(1) n(1) by (simp add: copy_block_def)
  moreover have "sends s (stored_bits (length (out_bits s)) buf) s4"
    unfolding bits by (rule sends_trans [OF sends_trans [OF sends_trans [OF s1(2) s2(2)] s3(2)] s4(2)])
  ultimately show ?thesis using s4(3) by blast
qed

section \<open>The contract of a bit sink\<close>

text \<open>Sending a list of values with their numbers of bits.\<close>

fun send_items :: "('s \<Rightarrow> nat \<Rightarrow> nat \<Rightarrow> 's option) \<Rightarrow> 's \<Rightarrow> (nat \<times> nat) list \<Rightarrow> 's option" where
  "send_items send s [] = Some s"
| "send_items send s ((v, n) # items) = send s v n \<bind> (\<lambda>s. send_items send s items)"

definition item_bits :: "(nat \<times> nat) list \<Rightarrow> bool list" where
  "item_bits items = concat (map (\<lambda>(v, n). bits_of n v) items)"

definition items_ok :: "(nat \<times> nat) list \<Rightarrow> bool" where
  "items_ok items \<longleftrightarrow> (\<forall>(v, n) \<in> set items. v < 2 ^ n \<and> n \<le> 16)"

lemma item_bits_simps [simp]:
  "item_bits [] = []" "item_bits ((v, n) # items) = bits_of n v @ item_bits items"
  "item_bits (xs @ ys) = item_bits xs @ item_bits ys"
  by (simp_all add: item_bits_def)

lemma items_ok_simps [simp]:
  "items_ok []" "items_ok ((v, n) # items) \<longleftrightarrow> v < 2 ^ n \<and> n \<le> 16 \<and> items_ok items"
  "items_ok (xs @ ys) \<longleftrightarrow> items_ok xs \<and> items_ok ys"
  by (auto simp: items_ok_def)

lemma send_items_append:
  "send_items send s (xs @ ys) = send_items send s xs \<bind> (\<lambda>s. send_items send s ys)"
  by (induction xs arbitrary: s) (auto simp: bind_eq_Some_conv split: Option.bind_splits)

locale bit_sink =
  fixes send :: "'s \<Rightarrow> nat \<Rightarrow> nat \<Rightarrow> 's option"
    and sent :: "'s \<Rightarrow> bool list \<Rightarrow> 's \<Rightarrow> bool"
    and space :: "'s \<Rightarrow> nat \<Rightarrow> bool"
    and good :: "'s \<Rightarrow> bool"
  assumes sent_nil: "good s \<Longrightarrow> sent s [] s"
    and sent_append: "sent s as s' \<Longrightarrow> sent s' bs s'' \<Longrightarrow> sent s (as @ bs) s''"
    and sent_good: "sent s bs s' \<Longrightarrow> good s'"
    and sent_space: "sent s bs s' \<Longrightarrow> space s (length bs + n) \<longleftrightarrow> space s' n"
    and space_less: "space s n \<Longrightarrow> m \<le> n \<Longrightarrow> space s m"
    and send: "good s \<Longrightarrow> v < 2 ^ n \<Longrightarrow> n \<le> 16 \<Longrightarrow> space s n \<Longrightarrow>
      \<exists>s'. send s v n = Some s' \<and> sent s (bits_of n v) s'"
begin

lemma send_items_sent:
  assumes "good s" "items_ok items" "space s (length (item_bits items))"
  shows "\<exists>s'. send_items send s items = Some s' \<and> sent s (item_bits items) s'"
  using assms
proof (induction items arbitrary: s)
  case Nil
  then show ?case by (simp add: sent_nil)
next
  case (Cons item items)
  obtain v n where item: "item = (v, n)" by fastforce
  have "space s n" using Cons.prems(3) item by (auto intro: space_less)
  with send [of s v n] Cons.prems item obtain s1 where
    s1: "send s v n = Some s1" "sent s (bits_of n v) s1" by auto
  have "space s1 (length (item_bits items))" using sent_space [OF s1(2)] Cons.prems(3) item by simp
  with Cons.IH [OF sent_good [OF s1(2)]] Cons.prems(2) item obtain s2 where
    "send_items send s1 items = Some s2" "sent s1 (item_bits items) s2" by auto
  with s1 item sent_append [OF s1(2)] show ?case by auto
qed

end

interpretation out: bit_sink send_bits sends room bits_ok
proof
  fix s s' s'' :: "'a ostate_scheme" and as bs v n m
  show "bits_ok s \<Longrightarrow> sends s [] s" by (rule sends_refl)
  show "sends s as s' \<Longrightarrow> sends s' bs s'' \<Longrightarrow> sends s (as @ bs) s''" by (rule sends_trans)
  show "sends s bs s' \<Longrightarrow> bits_ok s'" by (simp add: sends_def)
  show "sends s bs s' \<Longrightarrow> room s (length bs + n) = room s' n" by (rule sends_room)
  show "room s n \<Longrightarrow> m \<le> n \<Longrightarrow> room s m" by (simp add: room_def)
  show "bits_ok s \<Longrightarrow> v < 2 ^ n \<Longrightarrow> n \<le> 16 \<Longrightarrow> room s n \<Longrightarrow>
      \<exists>s'. send_bits s v n = Some s' \<and> sends s (bits_of n v) s'" by (rule send_bits_sends)
qed

section \<open>Properties\<close>

text \<open>C25: \<open>send_bits\<close> refines appending to the stream of bits: with room for them it adds the low
  bits of the value, first bit lowest, whatever is left in the 16-bit buffer, and keeps
  everything else.\<close>

theorem send_bits_appends:
  assumes "bits_ok s" "value < 2 ^ len" "len \<le> 16" "room s len"
  shows "\<exists>s'. send_bits s value len = Some s' \<and> sends s (bits_of len value) s'"
  using assms by (rule send_bits_sends)

definition fresh :: "nat \<Rightarrow> ostate" where
  "fresh n = \<lparr>pending_buf = replicate n 0, pending = 0, bi_buf = 5, bi_valid = 14\<rparr>"

theorem send_bits_appends_witness:
  "\<exists>s'. send_bits (fresh 4) 6 3 = Some s' \<and> sends (fresh 4) (bits_of 3 6) s'"
  by (rule send_bits_appends)
    (simp_all add: fresh_def bits_ok_def room_def out_bits_def)

text \<open>C28: a stored block is the three bits of its header, the padding to a byte boundary, the length
  of the data in two bytes, low byte first, the same complemented, and the data.\<close>

theorem stored_block_layout:
  assumes ok: "bits_ok s" and last: "fin < 2" and n: "length buf < 65536" "\<forall>b \<in> set buf. b < 256"
    and room: "room s (3 + length (stored_bits (length (out_bits s) + 3) buf))"
  shows "\<exists>s'. tr_stored_block s buf (length buf) fin = Some s' \<and>
    sends s (bits_of 3 fin @ stored_bits (length (out_bits s) + 3) buf) s' \<and> bi_valid s' = 0"
proof -
  have "room s 3" using room by (simp add: room_def)
  with send_bits_sends [OF ok, of fin 3] last obtain s1 where
    s1: "send_bits s fin 3 = Some s1" "sends s (bits_of 3 fin) s1" by auto
  then have ok1: "bits_ok s1" and at: "length (out_bits s1) = length (out_bits s) + 3"
    by (simp_all add: sends_def)
  have "room s1 (length (stored_bits (length (out_bits s1)) buf))"
    using sends_room [OF s1(2)] room at by simp
  from copy_block_sends [OF ok1 n this] obtain s2 where
    s2: "copy_block s1 buf (length buf) True = Some s2"
      "sends s1 (stored_bits (length (out_bits s1)) buf) s2" "bi_valid s2 = 0" by blast
  have "tr_stored_block s buf (length buf) fin = Some s2"
    using s1 s2 n(1) by (simp add: tr_stored_block_def STORED_BLOCK_def)
  with s2 at sends_trans [OF s1(2) s2(2)] show ?thesis by auto
qed

theorem stored_block_layout_witness:
  "\<exists>s'. tr_stored_block (fresh 9) [7, 255] (length [7, 255::nat]) 1 = Some s' \<and>
    sends (fresh 9) (bits_of 3 1 @ stored_bits (length (out_bits (fresh 9)) + 3) [7, 255]) s' \<and> bi_valid s' = 0"
  by (rule stored_block_layout)
    (simp_all add: fresh_def bits_ok_def room_def out_bits_def stored_bits_def pad_bits_def)

end
