(* ===== verification/Trees_Scan.thy ===== *)
theory Trees_Scan imports Trees_Bits Trees_Static begin

text \<open>
  \<^verbatim>\<open>libz_u/trees.c\<close>: the code lengths of a tree are sent as a sequence of symbols with repeat
  counts.  \<open>scan_tree\<close> counts the symbols and \<open>send_tree\<close> sends them.  The lemmas show that the
  two see the same symbols, and that the decoder's rule for repeats gives back the lengths.
\<close>

section \<open>The loops\<close>

text \<open>\<open>max_count\<close> and \<open>min_count\<close> for the next run.\<close>

definition run_limits :: "nat \<Rightarrow> nat \<Rightarrow> nat \<times> nat" where
  "run_limits curlen nextlen =
     (if nextlen = 0 then (138, 3) else if curlen = nextlen then (6, 3) else (7, 4))"

definition first_limits :: "nat \<Rightarrow> nat \<times> nat" where
  "first_limits nextlen = (if nextlen = 0 then (138, 3) else (7, 4))"

definition add_freq :: "ct_data list \<Rightarrow> nat \<Rightarrow> nat \<Rightarrow> ct_data list option" where
  "add_freq tree c k = do { e \<leftarrow> rd tree c; wr tree c (e\<lparr>fc := (fc e + k) mod 65536\<rparr>) }"

definition scan_run :: "int \<Rightarrow> nat \<Rightarrow> nat \<Rightarrow> nat \<Rightarrow> ct_data list \<Rightarrow> ct_data list option" where
  "scan_run prevlen curlen count min_count bl =
    (if count < min_count then add_freq bl curlen count
     else if curlen \<noteq> 0 then
       do { bl \<leftarrow> (if int curlen \<noteq> prevlen then add_freq bl curlen 1 else Some bl);
            add_freq bl REP_3_6 1 }
     else if count \<le> 10 then add_freq bl REPZ_3_10 1
     else add_freq bl REPZ_11_138 1)"

text \<open>The loop of \<open>scan_tree\<close>, \<open>todo\<close> elements from \<open>n\<close> on.\<close>

fun scan_loop ::
    "ct_data list \<Rightarrow> nat \<Rightarrow> nat \<Rightarrow> int \<Rightarrow> nat \<Rightarrow> nat \<Rightarrow> nat \<times> nat \<Rightarrow> ct_data list \<Rightarrow> ct_data list option" where
  "scan_loop tree n 0 prevlen nextlen count (max_count, min_count) bl = Some bl"
| "scan_loop tree n (Suc todo) prevlen curlen count (max_count, min_count) bl =
     do { e \<leftarrow> rd tree (n + 1);
          if count + 1 < max_count \<and> curlen = dl e then
            scan_loop tree (n + 1) todo prevlen (dl e) (count + 1) (max_count, min_count) bl
          else do {
            bl \<leftarrow> scan_run prevlen curlen (count + 1) min_count bl;
            scan_loop tree (n + 1) todo (int curlen) (dl e) 0 (run_limits curlen (dl e)) bl } }"

text \<open>The tree with its guard, and the bit length tree.\<close>

definition scan_tree :: "ct_data list \<Rightarrow> nat \<Rightarrow> ct_data list \<Rightarrow> (ct_data list \<times> ct_data list) option" where
  "scan_tree tree max_code bl =
     do { e \<leftarrow> rd tree 0;
          g \<leftarrow> rd tree (max_code + 1);
          tree \<leftarrow> wr tree (max_code + 1) (g\<lparr>dl := 65535\<rparr>);
          bl \<leftarrow> scan_loop tree 0 (max_code + 1) (-1) (dl e) 0 (first_limits (dl e)) bl;
          Some (tree, bl) }"

text \<open>\<open>do { send_code(s, curlen, s->bl_tree); } while (--count != 0);\<close>, \<open>count\<close> at least 1.\<close>

fun send_times :: "'a ostate_scheme \<Rightarrow> nat \<Rightarrow> ct_data list \<Rightarrow> nat \<Rightarrow> 'a ostate_scheme option" where
  "send_times s c tree 0 = Some s"
| "send_times s c tree (Suc count) = do { s \<leftarrow> send_code s c tree; send_times s c tree count }"

definition send_run ::
    "'a ostate_scheme \<Rightarrow> int \<Rightarrow> nat \<Rightarrow> nat \<Rightarrow> nat \<Rightarrow> ct_data list \<Rightarrow> 'a ostate_scheme option" where
  "send_run s prevlen curlen count min_count bl =
    (if count < min_count then send_times s curlen bl count
     else if curlen \<noteq> 0 then
       (if int curlen \<noteq> prevlen then
          do { s \<leftarrow> send_code s curlen bl; s \<leftarrow> send_code s REP_3_6 bl; send_bits s (count - 1 - 3) 2 }
        else do { s \<leftarrow> send_code s REP_3_6 bl; send_bits s (count - 3) 2 })
     else if count \<le> 10 then do { s \<leftarrow> send_code s REPZ_3_10 bl; send_bits s (count - 3) 3 }
     else do { s \<leftarrow> send_code s REPZ_11_138 bl; send_bits s (count - 11) 7 })"

fun send_loop ::
    "'a ostate_scheme \<Rightarrow> ct_data list \<Rightarrow> nat \<Rightarrow> nat \<Rightarrow> int \<Rightarrow> nat \<Rightarrow> nat \<Rightarrow> nat \<times> nat \<Rightarrow> ct_data list \<Rightarrow>
     'a ostate_scheme option" where
  "send_loop s tree n 0 prevlen nextlen count (max_count, min_count) bl = Some s"
| "send_loop s tree n (Suc todo) prevlen curlen count (max_count, min_count) bl =
     do { e \<leftarrow> rd tree (n + 1);
          if count + 1 < max_count \<and> curlen = dl e then
            send_loop s tree (n + 1) todo prevlen (dl e) (count + 1) (max_count, min_count) bl
          else do {
            s \<leftarrow> send_run s prevlen curlen (count + 1) min_count bl;
            send_loop s tree (n + 1) todo (int curlen) (dl e) 0 (run_limits curlen (dl e)) bl } }"

definition send_tree :: "'a ostate_scheme \<Rightarrow> ct_data list \<Rightarrow> nat \<Rightarrow> ct_data list \<Rightarrow> 'a ostate_scheme option" where
  "send_tree s tree max_code bl =
     do { e \<leftarrow> rd tree 0;
          send_loop s tree 0 (max_code + 1) (-1) (dl e) 0 (first_limits (dl e)) bl }"

section \<open>The symbols\<close>

text \<open>A symbol with the value and the number of its extra bits.\<close>

type_synonym len_sym = "nat \<times> nat \<times> nat"

definition run_syms :: "int \<Rightarrow> nat \<Rightarrow> nat \<Rightarrow> nat \<Rightarrow> len_sym list" where
  "run_syms prevlen curlen count min_count =
    (if count < min_count then replicate count (curlen, 0, 0)
     else if curlen \<noteq> 0 then
       (if int curlen \<noteq> prevlen then [(curlen, 0, 0), (REP_3_6, count - 1 - 3, 2)]
        else [(REP_3_6, count - 3, 2)])
     else if count \<le> 10 then [(REPZ_3_10, count - 3, 3)]
     else [(REPZ_11_138, count - 11, 7)])"

text \<open>The symbols for a tree, from the lengths behind the current one.\<close>

fun len_syms :: "nat list \<Rightarrow> int \<Rightarrow> nat \<Rightarrow> nat \<Rightarrow> nat \<times> nat \<Rightarrow> len_sym list" where
  "len_syms [] prevlen curlen count lim = []"
| "len_syms (nextlen # rest) prevlen curlen count (max_count, min_count) =
     (if count + 1 < max_count \<and> curlen = nextlen then
        len_syms rest prevlen nextlen (count + 1) (max_count, min_count)
      else run_syms prevlen curlen (count + 1) min_count @
        len_syms rest (int curlen) nextlen 0 (run_limits curlen nextlen))"

definition tree_syms :: "ct_data list \<Rightarrow> nat \<Rightarrow> len_sym list" where
  "tree_syms tree max_code =
     len_syms (map dl (take (max_code + 1) (tl tree))) (-1) (dl (hd tree)) 0 (first_limits (dl (hd tree)))"

section \<open>The decoder's rule\<close>



text \<open>The limits that belong to a length after another.\<close>

definition limits_ok :: "nat list \<Rightarrow> int \<Rightarrow> nat \<Rightarrow> nat \<times> nat \<Rightarrow> bool" where
  "limits_ok lens prevlen curlen lim \<longleftrightarrow>
     prevlen = (if lens = [] then -1 else int (last lens)) \<and>
     lim = (if curlen = 0 then (138, 3) else if int curlen = prevlen then (6, 3) else (7, 4))"

lemma limits_ok_first: "limits_ok [] (-1) curlen (first_limits curlen)"
  by (simp add: limits_ok_def first_limits_def)

lemma limits_ok_next: "limits_ok (lens @ replicate (Suc k) curlen) (int curlen) nextlen (run_limits curlen nextlen)"
  by (simp add: limits_ok_def run_limits_def replicate_append_same [symmetric] del: replicate_Suc)




section \<open>The loops see the same symbols\<close>

lemma take_drop_step: "Suc n < length xs \<Longrightarrow>
    take (Suc todo) (drop (Suc n) xs) = xs ! Suc n # take todo (drop (Suc (Suc n)) xs)"
  by (simp add: Cons_nth_drop_Suc [symmetric])

text \<open>\<open>scan_tree\<close> counts each symbol once for each time it occurs.\<close>

definition add_syms :: "ct_data list \<Rightarrow> len_sym list \<Rightarrow> ct_data list" where
  "add_syms bl syms = foldl (\<lambda>bl (c, x, k). bl[c := (bl ! c)\<lparr>fc := (fc (bl ! c) + 1) mod 65536\<rparr>]) bl syms"

lemma length_add_syms [simp]: "length (add_syms bl syms) = length bl"
  unfolding add_syms_def by (induction syms arbitrary: bl) (auto split: prod.splits)

lemma add_syms_append: "add_syms bl (xs @ ys) = add_syms (add_syms bl xs) ys"
  by (simp add: add_syms_def)

lemma add_syms_Cons: "add_syms bl ((c, x, k) # syms) =
    add_syms (bl[c := (bl ! c)\<lparr>fc := (fc (bl ! c) + 1) mod 65536\<rparr>]) syms"
  by (simp add: add_syms_def)

lemma add_freq_1: "c < length bl \<Longrightarrow> add_freq bl c 1 = Some (add_syms bl [(c, x, k)])"
  by (simp add: add_freq_def array_simps add_syms_def)

lemma add_freq_times: "c < length bl \<Longrightarrow> 1 \<le> n \<Longrightarrow> add_freq bl c n = Some (add_syms bl (replicate n (c, x, k)))"
proof (induction n arbitrary: bl)
  case (Suc n)
  show ?case
  proof (cases "n = 0")
    case True
    with Suc.prems add_freq_1 [of c bl x k] show ?thesis by simp
  next
    case False
    let ?bl = "bl[c := (bl ! c)\<lparr>fc := (fc (bl ! c) + 1) mod 65536\<rparr>]"
    have "add_freq ?bl c n = Some (add_syms ?bl (replicate n (c, x, k)))"
      using Suc.prems False by (intro Suc.IH) simp_all
    moreover have "add_freq ?bl c n = add_freq bl c (Suc n)"
      using Suc.prems(1) by (simp add: add_freq_def array_simps mod_simps)
    ultimately show ?thesis by (simp add: add_syms_Cons)
  qed
qed simp

lemma scan_run_syms:
  assumes "length bl = BL_CODES" "curlen < 16" "1 \<le> count"
  shows "scan_run prevlen curlen count mn bl = Some (add_syms bl (run_syms prevlen curlen count mn))"
proof -
  have l: "curlen < length bl" "REP_3_6 < length bl" "REPZ_3_10 < length bl" "REPZ_11_138 < length bl"
    using assms by (simp_all add: BL_CODES_def REP_3_6_def REPZ_3_10_def REPZ_11_138_def)
  have two: "add_syms bl [(c, x, k), (c', x', k')] = add_syms (add_syms bl [(c, x, k)]) [(c', x', k')]"
    for c x k c' x' k' using add_syms_append [of bl "[(c, x, k)]" "[(c', x', k')]"] by simp
  show ?thesis
    using add_freq_times [OF l(1) assms(3), of 0 0] add_freq_1 [OF l(1), of 0 0] add_freq_1 [OF l(2)] 
      add_freq_1 [OF l(3), of "count - 3" 3] add_freq_1 [OF l(4), of "count - 11" 7]
      add_freq_1 [of REP_3_6 "add_syms bl [(curlen, 0, 0)]" "count - 1 - 3" 2] l(2)
      add_freq_1 [OF l(2), of "count - 3" 2]
    by (auto simp: scan_run_def run_syms_def two)
qed

lemma scan_loop_syms:
  assumes "length bl = BL_CODES" "n + todo < length tree" "\<forall>i < n + todo. n \<le> i \<longrightarrow> dl (tree ! (i + 1)) < 16 \<or> i + 1 = n + todo"
    and "curlen < 16"
  shows "scan_loop tree n todo prevlen curlen count lim bl =
    Some (add_syms bl (len_syms (map dl (take todo (drop (n + 1) tree))) prevlen curlen count lim))"
  using assms
proof (induction todo arbitrary: n prevlen curlen count lim bl)
  case 0
  then show ?case by (cases lim) (simp add: add_syms_def)
next
  case (Suc todo)
  obtain mx mn where lim: "lim = (mx, mn)" by fastforce
  let ?l = "dl (tree ! (n + 1))"
  have n: "n + 1 < length tree" using Suc.prems(2) by simp
  have IH: "scan_loop tree (n + 1) todo prevlen' ?l count' lim' bl' =
      Some (add_syms bl' (len_syms (map dl (take todo (drop (n + 2) tree))) prevlen' ?l count' lim'))"
    if "length bl' = BL_CODES" for prevlen' count' lim' bl'
  proof (cases "todo = 0")
    case True
    then show ?thesis by (cases lim') (simp add: add_syms_def)
  next
    case False
    then have "?l < 16" using Suc.prems(3) by (elim allE [of _ n]) simp
    with Suc.IH [of bl' "n + 1" ?l prevlen' count' lim'] that Suc.prems(2,3) show ?thesis by simp
  qed
  show ?case
    using IH n scan_run_syms [OF Suc.prems(1,4), of "count + 1" prevlen mn] Suc.prems(1)
    by (simp add: lim array_simps take_drop_step [OF n [simplified]] add_syms_append)
qed


text \<open>\<open>send_tree\<close> sends the code of each symbol and its extra bits.\<close>

definition sym_items :: "ct_data list \<Rightarrow> len_sym list \<Rightarrow> (nat \<times> nat) list" where
  "sym_items bl syms = concat (map (\<lambda>(c, x, k). (fc (bl ! c), dl (bl ! c)) # (if k = 0 then [] else [(x, k)])) syms)"

lemma sym_items_simps [simp]:
  "sym_items bl [] = []"
  "sym_items bl ((c, x, k) # syms) = (fc (bl ! c), dl (bl ! c)) # (if k = 0 then [] else [(x, k)]) @ sym_items bl syms"
  "sym_items bl (xs @ ys) = sym_items bl xs @ sym_items bl ys"
  by (simp_all add: sym_items_def)

lemma send_code_items: "c < length bl \<Longrightarrow> send_code s c bl = send_items send_bits s [(fc (bl ! c), dl (bl ! c))]"
  by (simp add: send_code_def array_simps)

lemma send_times_items:
  "c < length bl \<Longrightarrow> send_times s c bl n = send_items send_bits s (sym_items bl (replicate n (c, 0, 0)))"
  by (induction n arbitrary: s) (simp_all add: send_code_def array_simps)

lemma send_run_items:
  assumes "length bl = BL_CODES" "curlen < 16"
  shows "send_run s prevlen curlen count mn bl =
    send_items send_bits s (sym_items bl (run_syms prevlen curlen count mn))"
proof -
  have l: "curlen < length bl" "REP_3_6 < length bl" "REPZ_3_10 < length bl" "REPZ_11_138 < length bl"
    using assms by (simp_all add: BL_CODES_def REP_3_6_def REPZ_3_10_def REPZ_11_138_def)
  show ?thesis
    using l by (simp add: send_run_def run_syms_def send_times_items send_code_items)
qed

lemma send_loop_items:
  fixes s :: "'a ostate_scheme"
  assumes "length bl = BL_CODES" "n + todo < length tree" "\<forall>i < n + todo. n \<le> i \<longrightarrow> dl (tree ! (i + 1)) < 16 \<or> i + 1 = n + todo"
    and "curlen < 16"
  shows "send_loop s tree n todo prevlen curlen count lim bl =
    send_items send_bits s (sym_items bl (len_syms (map dl (take todo (drop (n + 1) tree))) prevlen curlen count lim))"
  using assms
proof (induction todo arbitrary: s n prevlen curlen count lim)
  case 0
  then show ?case by (cases lim) simp
next
  case (Suc todo)
  obtain mx mn where lim: "lim = (mx, mn)" by fastforce
  let ?l = "dl (tree ! (n + 1))"
  have n: "n + 1 < length tree" using Suc.prems(2) by simp
  have IH: "send_loop s' tree (n + 1) todo prevlen' ?l count' lim' bl =
      send_items send_bits s' (sym_items bl (len_syms (map dl (take todo (drop (n + 2) tree))) prevlen' ?l count' lim'))"
    for s' :: "'a ostate_scheme" and prevlen' count' lim'
  proof (cases "todo = 0")
    case True
    then show ?thesis by (cases lim') simp
  next
    case False
    then have "?l < 16" using Suc.prems(3) by (elim allE [of _ n]) simp
    with Suc.IH [of "n + 1" ?l s' prevlen' count' lim'] Suc.prems(1-3) show ?thesis by simp
  qed
  have "send_run s prevlen curlen (count + 1) mn bl =
      send_items send_bits s (sym_items bl (run_syms prevlen curlen (count + 1) mn))"
    by (rule send_run_items [OF Suc.prems(1,4)])
  then show ?case
    using IH n
    by (simp add: lim array_simps take_drop_step [OF n [simplified]] send_items_append)
qed

section \<open>Properties\<close>

text \<open>A tree of code lengths, with its guard behind the largest code.\<close>

definition scannable :: "ct_data list \<Rightarrow> nat \<Rightarrow> bool" where
  "scannable tree max_code \<longleftrightarrow> max_code + 1 < length tree \<and> (\<forall>s \<le> max_code. dl (tree ! s) < 16)"

definition guarded :: "ct_data list \<Rightarrow> nat \<Rightarrow> ct_data list" where
  "guarded tree max_code = tree[max_code + 1 := (tree ! (max_code + 1))\<lparr>dl := 65535\<rparr>]"

lemma hd_conv: "xs \<noteq> [] \<Longrightarrow> hd xs = xs ! 0"
  by (rule hd_conv_nth)

lemma guarded_lens:
  assumes "scannable tree max_code"
  shows "map dl (take (max_code + 1) (tl (guarded tree max_code))) = map dl (take max_code (tl tree)) @ [65535]"
    and "hd (guarded tree max_code) = hd tree" "tree \<noteq> []"
proof -
  from assms have l: "max_code + 1 < length tree" by (simp add: scannable_def)
  then obtain e es where t: "tree = e # es" by (cases tree) auto
  with l show "map dl (take (max_code + 1) (tl (guarded tree max_code))) = map dl (take max_code (tl tree)) @ [65535]"
    "hd (guarded tree max_code) = hd tree" "tree \<noteq> []"
    by (simp_all add: guarded_def take_Suc_conv_app_nth)
qed

lemma tree_lens_Cons:
  assumes "scannable tree max_code"
  shows "tree_lens tree max_code = dl (hd tree) # map dl (take max_code (tl tree))"
  using guarded_lens(3) [OF assms] by (cases tree) (simp_all add: tree_lens_def)

lemma tree_syms_guarded:
  assumes "scannable tree max_code"
  shows "tree_syms (guarded tree max_code) max_code =
    len_syms (map dl (take max_code (tl tree)) @ [65535]) (-1) (dl (hd tree)) 0 (first_limits (dl (hd tree)))"
  using guarded_lens [OF assms] by (simp add: tree_syms_def)

lemma scannable_set:
  assumes "scannable tree max_code"
  shows "dl (hd tree) < 16" "\<forall>l \<in> set (map dl (take max_code (tl tree))). l < 16"
proof -
  have "\<forall>l \<in> set (tree_lens tree max_code). l < 16"
    using assms by (auto simp: tree_lens_def scannable_def in_set_conv_nth)
  then show "dl (hd tree) < 16" "\<forall>l \<in> set (map dl (take max_code (tl tree))). l < 16"
    unfolding tree_lens_Cons [OF assms] by auto
qed

lemma guarded_small:
  assumes "scannable tree max_code"
  shows "\<forall>i < 0 + (max_code + 1). 0 \<le> i \<longrightarrow>
    dl (guarded tree max_code ! (i + 1)) < 16 \<or> i + 1 = 0 + (max_code + 1)"
  using assms by (auto simp: scannable_def guarded_def nth_list_update)

lemma tree_syms_drop: "tree \<noteq> [] \<Longrightarrow> tree_syms tree max_code =
    len_syms (map dl (take (max_code + 1) (drop (0 + 1) tree))) (-1) (dl (tree ! 0)) 0 (first_limits (dl (tree ! 0)))"
  by (simp add: tree_syms_def drop_Suc hd_conv)

lemma scan_tree_eq:
  assumes tree: "scannable tree max_code" and bl: "length bl = BL_CODES"
  shows "scan_tree tree max_code bl =
    Some (guarded tree max_code, add_syms bl (tree_syms (guarded tree max_code) max_code))"
proof -
  let ?t = "guarded tree max_code"
  from tree have l: "max_code + 1 < length tree" by (simp add: scannable_def)
  have len: "length ?t = length tree" by (simp add: guarded_def)
  have ne: "?t \<noteq> []" "tree \<noteq> []" using l len by auto
  have h: "?t ! 0 = tree ! 0" using l by (simp add: guarded_def)
  have small: "dl (tree ! 0) < 16" using scannable_set(1) [OF tree] ne by (simp add: hd_conv)
  have "scan_loop ?t 0 (max_code + 1) (-1) (dl (tree ! 0)) 0 (first_limits (dl (tree ! 0))) bl =
      Some (add_syms bl (tree_syms ?t max_code))"
    using scan_loop_syms [OF bl _ guarded_small [OF tree] small] l len ne(1) h
    by (simp add: tree_syms_drop)
  moreover have "tree[Suc max_code := (tree ! Suc max_code)\<lparr>dl := 65535\<rparr>] = ?t" by (simp add: guarded_def)
  ultimately show ?thesis using l ne by (simp add: scan_tree_def array_simps)
qed

text \<open>The bit length tree with codes: each code fits in its length.\<close>

definition coded :: "ct_data list \<Rightarrow> bool" where
  "coded bl \<longleftrightarrow> length bl = BL_CODES \<and> (\<forall>e \<in> set bl. fc e < 2 ^ dl e \<and> dl e \<le> 16)"

lemma syms_bounds:
  assumes "length bl = BL_CODES" "curlen < 16" "\<forall>l \<in> set ls. l < 16" "count < mx"
    and "limits_ok lens prevlen curlen (mx, mn)"
  shows "\<forall>(c, x, k) \<in> set (len_syms (ls @ [guard]) prevlen curlen count (mx, mn)). c < 19 \<and> (k = 0 \<or> x < 2 ^ k \<and> k \<le> 7)"
  using assms(2-)
proof (induction ls arbitrary: lens prevlen curlen count mx mn)
  case Nil
  then show ?case
    by (auto simp: run_syms_def limits_ok_def REP_3_6_def REPZ_3_10_def REPZ_11_138_def split: if_splits)
next
  case (Cons l ls)
  have run: "\<forall>(c, x, k) \<in> set (run_syms prevlen curlen (count + 1) mn). c < 19 \<and> (k = 0 \<or> x < 2 ^ k \<and> k \<le> 7)"
    using Cons.prems
    by (auto simp: run_syms_def limits_ok_def REP_3_6_def REPZ_3_10_def REPZ_11_138_def split: if_splits)
  obtain mx' mn' where lim: "run_limits curlen l = (mx', mn')" by fastforce
  have lo: "limits_ok (lens @ replicate (Suc count) curlen) (int curlen) l (mx', mn')"
    using limits_ok_next [of lens count curlen l] lim by simp
  have "0 < mx'" using lim by (auto simp: run_limits_def split: if_splits)
  with Cons.IH [OF _ _ _ lo, of 0] Cons.prems have
    "\<forall>(c, x, k) \<in> set (len_syms (ls @ [guard]) (int curlen) l 0 (mx', mn')). c < 19 \<and> (k = 0 \<or> x < 2 ^ k \<and> k \<le> 7)"
    by simp
  moreover have "\<forall>(c, x, k) \<in> set (len_syms (ls @ [guard]) prevlen l (count + 1) (mx, mn)). c < 19 \<and> (k = 0 \<or> x < 2 ^ k \<and> k \<le> 7)"
    if "count + 1 < mx" "curlen = l"
    using Cons.IH [of l "count + 1" mx lens prevlen mn] Cons.prems that by simp
  ultimately show ?case using run lim by auto
qed

lemma tree_syms_bounds:
  assumes tree: "scannable tree max_code" and bl: "length bl = BL_CODES"
  shows "\<forall>(c, x, k) \<in> set (tree_syms (guarded tree max_code) max_code). c < 19 \<and> (k = 0 \<or> x < 2 ^ k \<and> k \<le> 7)"
proof -
  obtain mx mn where lim: "first_limits (dl (hd tree)) = (mx, mn)" by fastforce
  have "limits_ok [] (-1) (dl (hd tree)) (mx, mn)" using limits_ok_first [of "dl (hd tree)"] lim by simp
  moreover have "0 < mx" using lim by (auto simp: first_limits_def split: if_splits)
  ultimately show ?thesis unfolding tree_syms_guarded [OF tree] lim
    by (intro syms_bounds [OF bl scannable_set [OF tree]])
qed

lemma sym_items_ok:
  assumes "coded bl" "\<forall>(c, x, k) \<in> set syms. c < 19 \<and> (k = 0 \<or> x < 2 ^ k \<and> k \<le> 7)"
  shows "items_ok (sym_items bl syms)"
  using assms(2)
proof (induction syms)
  case (Cons sym syms)
  obtain c x k where sym: "sym = (c, x, k)" by (cases sym) auto
  with Cons.prems assms(1) have "bl ! c \<in> set bl" by (simp add: coded_def BL_CODES_def)
  with assms(1) have "fc (bl ! c) < 2 ^ dl (bl ! c) \<and> dl (bl ! c) \<le> 16" by (simp add: coded_def)
  with Cons sym show ?case by (auto simp: items_ok_def)
qed simp

lemma send_tree_items:
  assumes tree: "scannable tree max_code" and bl: "length bl = BL_CODES"
  shows "send_tree s (guarded tree max_code) max_code bl =
    send_items send_bits s (sym_items bl (tree_syms (guarded tree max_code) max_code))"
proof -
  let ?t = "guarded tree max_code"
  from tree have l: "max_code + 1 < length tree" by (simp add: scannable_def)
  have len: "length ?t = length tree" by (simp add: guarded_def)
  have ne: "?t \<noteq> []" "tree \<noteq> []" using l len by auto
  have h: "?t ! 0 = tree ! 0" using l by (simp add: guarded_def)
  have small: "dl (tree ! 0) < 16" using scannable_set(1) [OF tree] ne by (simp add: hd_conv)
  have "send_loop s ?t 0 (max_code + 1) (-1) (dl (tree ! 0)) 0 (first_limits (dl (tree ! 0))) bl =
      send_items send_bits s (sym_items bl (tree_syms ?t max_code))"
    using send_loop_items [OF bl _ guarded_small [OF tree] small] l len ne(1) h
    by (simp add: tree_syms_drop)
  then show ?thesis using ne h by (simp add: send_tree_def array_simps)
qed

lemma add_syms_freq:
  "c < length bl \<Longrightarrow> fc (bl ! c) < 65536 \<Longrightarrow>
    fc (add_syms bl syms ! c) = (fc (bl ! c) + length (filter (\<lambda>(d, x, k). d = c) syms)) mod 65536"
proof (induction syms arbitrary: bl)
  case (Cons sym syms)
  obtain d x k where sym: "sym = (d, x, k)" by (cases sym) auto
  let ?bl = "bl[d := (bl ! d)\<lparr>fc := (fc (bl ! d) + 1) mod 65536\<rparr>]"
  have "fc (?bl ! c) = (fc (bl ! c) + (if d = c then 1 else 0)) mod 65536"
    using Cons.prems by (simp add: nth_list_update)
  then have "fc (?bl ! c) < 65536" by simp
  with Cons.IH [of ?bl] Cons.prems sym show ?case
    by (simp add: add_syms_Cons nth_list_update mod_simps)
qed (simp add: add_syms_def)


definition run_tree :: "ct_data list" where
  "run_tree = map (\<lambda>l. \<lparr>fc = 0, dl = l\<rparr>) (replicate 12 0 @ replicate 9 8 @ [7, 0])"



text \<open>C27: \<open>scan_tree\<close> sets the guard and adds to the frequency of each bit length symbol the number of
  times it stands in the sequence for the tree; \<open>send_tree\<close> on the same tree sends the codes and
  the extra bits of just that sequence.\<close>

theorem scan_send_agree:
  fixes s :: "'a ostate_scheme"
  assumes tree: "scannable tree max_code"
    and bl: "length bl = BL_CODES" "\<forall>e \<in> set bl. fc e < 65536" and codes: "coded bl'"
    and s: "bits_ok s"
    and room: "room s (length (item_bits (sym_items bl' (tree_syms (guarded tree max_code) max_code))))"
  shows "\<exists>counted s'. scan_tree tree max_code bl = Some (guarded tree max_code, counted) \<and>
    (\<forall>c < BL_CODES. fc (counted ! c) =
       (fc (bl ! c) + length (filter (\<lambda>(d, x, k). d = c) (tree_syms (guarded tree max_code) max_code))) mod 65536) \<and>
    send_tree s (guarded tree max_code) max_code bl' = Some s' \<and>
    sends s (item_bits (sym_items bl' (tree_syms (guarded tree max_code) max_code))) s'"
proof -
  from codes have l: "length bl' = BL_CODES" by (simp add: coded_def)
  have "items_ok (sym_items bl' (tree_syms (guarded tree max_code) max_code))"
    by (rule sym_items_ok [OF codes tree_syms_bounds [OF tree l]])
  with out.send_items_sent [OF s _ room] send_tree_items [OF tree l, of s] obtain s' where
    "send_tree s (guarded tree max_code) max_code bl' = Some s'"
    "sends s (item_bits (sym_items bl' (tree_syms (guarded tree max_code) max_code))) s'" by auto
  moreover have "fc (bl ! c) < 65536" if "c < BL_CODES" for c using bl that by simp
  ultimately show ?thesis
    using scan_tree_eq [OF tree bl(1)] add_syms_freq [of _ bl] bl(1) by auto
qed

definition run_bl :: "ct_data list" where
  "run_bl = replicate 19 \<lparr>fc = 0, dl = 3\<rparr>"

theorem scan_send_agree_witness:
  "\<exists>counted s'. scan_tree run_tree 21 run_bl = Some (guarded run_tree 21, counted) \<and>
    (\<forall>c < BL_CODES. fc (counted ! c) =
       (fc (run_bl ! c) + length (filter (\<lambda>(d, x, k). d = c) (tree_syms (guarded run_tree 21) 21))) mod 65536) \<and>
    send_tree (fresh 9) (guarded run_tree 21) 21 run_bl = Some s' \<and>
    sends (fresh 9) (item_bits (sym_items run_bl (tree_syms (guarded run_tree 21) 21))) s'"
proof (rule scan_send_agree)
  have "list_all (\<lambda>s. dl (run_tree ! s) < 16) [0..<22]" by code_simp
  then show "scannable run_tree 21"
    by (auto simp: scannable_def list_all_iff run_tree_def less_Suc_eq_le [symmetric])
  have "length (item_bits (sym_items run_bl (tree_syms (guarded run_tree 21) 21))) = 27" by code_simp
  then show "room (fresh 9) (length (item_bits (sym_items run_bl (tree_syms (guarded run_tree 21) 21))))"
    by (simp add: room_def fresh_def out_bits_def)
qed (simp_all add: run_bl_def BL_CODES_def coded_def fresh_def bits_ok_def)

end
