(* ===== verification/Trees_Heap.thy ===== *)
theory Trees_Heap imports Trees_Static "HOL-Library.Multiset" begin

text \<open>
  \<^verbatim>\<open>libz_u/trees.c\<close>: the heap that \<open>build_tree\<close> takes the least frequent nodes from.  \<open>heap[1]\<close> to
  \<open>heap[heap_len]\<close> are nodes of the tree, each not above its sons \<open>2 * i\<close> and \<open>2 * i + 1\<close> in the
  order of frequency and depth.  The lemmas show that \<open>pqdownheap\<close> restores the order below
  a node and only permutes the nodes, and that the first one is then a least one.
\<close>

section \<open>The operations\<close>

definition SMALLEST :: nat where "SMALLEST = 1"

definition smaller :: "ct_data list \<Rightarrow> nat \<Rightarrow> nat \<Rightarrow> nat list \<Rightarrow> bool option" where
  "smaller tree n m depth =
     do { a \<leftarrow> rd tree n; b \<leftarrow> rd tree m;
          if fc a < fc b then Some True
          else if fc a = fc b then do { d \<leftarrow> rd depth n; e \<leftarrow> rd depth m; Some (d \<le> e) }
          else Some False }"

text \<open>The loop, at a position \<open>k\<close> to fill and its left son \<open>j\<close>; it starts with \<open>j\<close> above 0.\<close>

function sift :: "ct_data list \<Rightarrow> nat list \<Rightarrow> nat \<Rightarrow> nat \<Rightarrow> nat \<Rightarrow> nat \<Rightarrow> nat list \<Rightarrow> nat list option" where
  "sift tree depth heap_len v k j heap =
     (if j = 0 then None
      else if j \<le> heap_len then
        do { right \<leftarrow> (if j < heap_len then
                         do { a \<leftarrow> rd heap (j + 1); b \<leftarrow> rd heap j; smaller tree a b depth }
                       else Some False);
             let j = (if right then j + 1 else j);
             h \<leftarrow> rd heap j;
             stop \<leftarrow> smaller tree v h depth;
             if stop then wr heap k v
             else do { heap \<leftarrow> wr heap k h; sift tree depth heap_len v j (2 * j) heap } }
      else wr heap k v)"
  by pat_completeness auto
termination
  by (relation "measure (\<lambda>(tree, depth, heap_len, v, k, j, heap). Suc heap_len - j)") (auto split: if_splits)

declare sift.simps [simp del]

definition pqdownheap :: "ct_data list \<Rightarrow> nat list \<Rightarrow> nat \<Rightarrow> nat \<Rightarrow> nat list \<Rightarrow> nat list option" where
  "pqdownheap tree depth heap_len k heap =
     do { v \<leftarrow> rd heap k; sift tree depth heap_len v k (2 * k) heap }"

text \<open>\<open>pqremove\<close>: the least node, the heap and its length.\<close>

definition pqremove :: "ct_data list \<Rightarrow> nat list \<Rightarrow> nat list \<Rightarrow> nat \<Rightarrow> (nat \<times> nat list \<times> nat) option" where
  "pqremove tree depth heap heap_len =
     do { top \<leftarrow> rd heap SMALLEST;
          l \<leftarrow> rd heap heap_len;
          heap \<leftarrow> wr heap SMALLEST l;
          heap \<leftarrow> pqdownheap tree depth (heap_len - 1) SMALLEST heap;
          Some (top, heap, heap_len - 1) }"

section \<open>The order\<close>

definition node_le :: "ct_data list \<Rightarrow> nat list \<Rightarrow> nat \<Rightarrow> nat \<Rightarrow> bool" where
  "node_le tree depth n m \<longleftrightarrow>
     fc (tree ! n) < fc (tree ! m) \<or> fc (tree ! n) = fc (tree ! m) \<and> depth ! n \<le> depth ! m"

lemma node_le_total: "node_le tree depth n m \<or> node_le tree depth m n"
  by (auto simp: node_le_def)

lemma node_le_trans: "node_le tree depth a b \<Longrightarrow> node_le tree depth b c \<Longrightarrow> node_le tree depth a c"
  by (auto simp: node_le_def)

lemma node_le_refl [simp]: "node_le tree depth a a"
  by (simp add: node_le_def)

text \<open>The nodes of the heap are nodes of the tree.\<close>

definition heap_nodes :: "ct_data list \<Rightarrow> nat list \<Rightarrow> nat list \<Rightarrow> nat \<Rightarrow> bool" where
  "heap_nodes tree depth heap n \<longleftrightarrow> n < length heap \<and>
     (\<forall>i. 1 \<le> i \<and> i \<le> n \<longrightarrow> heap ! i < length tree \<and> heap ! i < length depth)"

lemma smaller_eq: "n < length tree \<Longrightarrow> m < length tree \<Longrightarrow> n < length depth \<Longrightarrow> m < length depth \<Longrightarrow>
    smaller tree n m depth = Some (node_le tree depth n m)"
  by (auto simp: smaller_def array_simps node_le_def)

text \<open>The order holds below each position from \<open>lo\<close> on.\<close>

definition heap_from :: "ct_data list \<Rightarrow> nat list \<Rightarrow> nat list \<Rightarrow> nat \<Rightarrow> nat \<Rightarrow> bool" where
  "heap_from tree depth heap n lo \<longleftrightarrow>
     (\<forall>i j. lo \<le> i \<and> 1 \<le> i \<and> j \<le> n \<and> (j = 2 * i \<or> j = 2 * i + 1) \<longrightarrow>
        node_le tree depth (heap ! i) (heap ! j))"

text \<open>While sifting: position \<open>k\<close> is a hole for \<open>v\<close>, what is above it is at most what is below it,
  and \<open>v\<close> is not below the father of the hole unless nothing has moved.\<close>

definition hole :: "ct_data list \<Rightarrow> nat list \<Rightarrow> nat list \<Rightarrow> nat \<Rightarrow> nat \<Rightarrow> nat \<Rightarrow> nat \<Rightarrow> bool" where
  "hole tree depth heap n lo v k \<longleftrightarrow> lo \<le> k \<and> 1 \<le> k \<and> k \<le> n \<and>
     (\<forall>i j. lo \<le> i \<and> 1 \<le> i \<and> i \<noteq> k \<and> j \<le> n \<and> j \<noteq> k \<and> (j = 2 * i \<or> j = 2 * i + 1) \<longrightarrow>
        node_le tree depth (heap ! i) (heap ! j)) \<and>
     (\<forall>i j. lo \<le> i \<and> 1 \<le> i \<and> (k = 2 * i \<or> k = 2 * i + 1) \<and> j \<le> n \<and> (j = 2 * k \<or> j = 2 * k + 1) \<longrightarrow>
        node_le tree depth (heap ! i) (heap ! j)) \<and>
     (\<forall>i. lo \<le> i \<and> 1 \<le> i \<and> (k = 2 * i \<or> k = 2 * i + 1) \<longrightarrow> node_le tree depth (heap ! i) v)"

lemma hole_fill:
  assumes "hole tree depth heap n lo v k" "n < length heap"
    and "\<And>j. j \<le> n \<Longrightarrow> j = 2 * k \<or> j = 2 * k + 1 \<Longrightarrow> node_le tree depth v (heap ! j)"
  shows "heap_from tree depth (heap[k := v]) n lo"
  using assms unfolding heap_from_def hole_def
  by (auto simp: nth_list_update) 


lemma hole_down:
  assumes h: "hole tree depth heap n lo v k" and n: "n < length heap"
    and j: "j \<le> n" "j = 2 * k \<or> j = 2 * k + 1"
    and least: "\<And>i. i \<le> n \<Longrightarrow> i = 2 * k \<or> i = 2 * k + 1 \<Longrightarrow> node_le tree depth (heap ! j) (heap ! i)"
    and le: "node_le tree depth (heap ! j) v"
  shows "hole tree depth (heap[k := heap ! j]) n lo v j"
proof -
  let ?h = "heap[k := heap ! j]"
  have k: "1 \<le> k" "lo \<le> k" "k < length heap" "k < j" using h n j by (auto simp: hole_def)
  have sons: "i = k" if "1 \<le> i" "j = 2 * i \<or> j = 2 * i + 1" for i using that j(2) by presburger
  have nth: "?h ! i = (if i = k then heap ! j else heap ! i)" for i using k(3) by simp
  have a: "node_le tree depth (heap ! i) (heap ! l)"
    if "lo \<le> i" "1 \<le> i" "i \<noteq> k" "l \<le> n" "l \<noteq> k" "l = 2 * i \<or> l = 2 * i + 1" for i l
    using h that unfolding hole_def by blast
  have b: "node_le tree depth (heap ! i) (heap ! l)"
    if "lo \<le> i" "1 \<le> i" "k = 2 * i \<or> k = 2 * i + 1" "l \<le> n" "l = 2 * k \<or> l = 2 * k + 1" for i l
    using h that unfolding hole_def by blast
  have "node_le tree depth (?h ! i) (?h ! l)"
    if i: "lo \<le> i" "1 \<le> i" "i \<noteq> j" "l \<le> n" "l \<noteq> j" "l = 2 * i \<or> l = 2 * i + 1" for i l
  proof (cases "i = k")
    case True
    then have "l \<noteq> k" using i(2,6) by auto
    with True i least show ?thesis by (simp add: nth)
  next
    case False
    show ?thesis
    proof (cases "l = k")
      case True
      with False i b [of i j] j show ?thesis by (simp add: nth)
    next
      case ne: False
      with False i a show ?thesis by (simp add: nth)
    qed
  qed
  moreover have "node_le tree depth (?h ! i) (?h ! l)"
    if "lo \<le> i" "1 \<le> i" "j = 2 * i \<or> j = 2 * i + 1" "l \<le> n" "l = 2 * j \<or> l = 2 * j + 1" for i l
  proof -
    have i: "i = k" using sons that by blast
    have "l \<noteq> k" using that k by auto
    moreover have "node_le tree depth (heap ! j) (heap ! l)"
      using a [of j l] that k by auto
    ultimately show ?thesis by (simp add: nth i)
  qed
  moreover have "node_le tree depth (?h ! i) v" if "lo \<le> i" "1 \<le> i" "j = 2 * i \<or> j = 2 * i + 1" for i
    using sons [OF that(2,3)] le by (simp add: nth)
  ultimately show ?thesis using k j unfolding hole_def by auto
qed

lemma sift_ok:
  assumes "hole tree depth heap n lo v k" "n < length heap" "heap_nodes tree depth (heap[k := v]) n"
  shows "\<exists>heap'. sift tree depth n v k (2 * k) heap = Some heap' \<and> length heap' = length heap \<and>
    heap_from tree depth heap' n lo \<and> mset heap' = mset (heap[k := v]) \<and>
    (\<forall>i. i < k \<or> n < i \<longrightarrow> heap' ! i = heap ! i)"
  using assms
proof (induction "n - k" arbitrary: heap k rule: less_induct)
  case less
  note h = less.prems(1) and n = less.prems(2) and nodes = less.prems(3)
  from h have k: "1 \<le> k" "k \<le> n" by (auto simp: hole_def)
  then have kl: "k < length heap" using n by simp
  have node: "heap ! i < length tree" "heap ! i < length depth" if "1 \<le> i" "i \<le> n" "i \<noteq> k" for i
    using nodes that by (auto simp: heap_nodes_def dest: spec [of _ i])
  have v: "v < length tree" "v < length depth"
    using nodes k kl by (auto simp: heap_nodes_def dest: spec [of _ k])
  have finish: "\<exists>heap'. wr heap k v = Some heap' \<and> length heap' = length heap \<and>
      heap_from tree depth heap' n lo \<and> mset heap' = mset (heap[k := v]) \<and>
      (\<forall>i. i < k \<or> n < i \<longrightarrow> heap' ! i = heap ! i)"
    if "\<And>j. j \<le> n \<Longrightarrow> j = 2 * k \<or> j = 2 * k + 1 \<Longrightarrow> node_le tree depth v (heap ! j)"
    using hole_fill [OF h n that] kl k by (auto simp: array_simps)
  show ?case
  proof (cases "2 * k \<le> n")
    case False
    then show ?thesis using finish k by (subst sift.simps) auto
  next
    case True
    define right where "right \<longleftrightarrow> 2 * k < n \<and> node_le tree depth (heap ! (2 * k + 1)) (heap ! (2 * k))"
    let ?j = "if right then 2 * k + 1 else 2 * k"
    have j: "?j \<le> n" "?j = 2 * k \<or> ?j = 2 * k + 1" "k < ?j" using True k by (auto simp: right_def)
    have least: "node_le tree depth (heap ! ?j) (heap ! i)" if "i \<le> n" "i = 2 * k \<or> i = 2 * k + 1" for i
      using that node_le_total [of tree depth "heap ! (2 * k + 1)" "heap ! (2 * k)"]
      by (auto simp: right_def)
    have r: "(if 2 * k < n then rd heap (2 * k + 1) \<bind> (\<lambda>a. rd heap (2 * k) \<bind> (\<lambda>b. smaller tree a b depth))
        else Some False) = Some right"
      using node [of "2 * k + 1"] node [of "2 * k"] n k
      by (auto simp: array_simps smaller_eq right_def)
    have hj: "rd heap ?j = Some (heap ! ?j)" using j n by (intro rd_in) linarith
    have stop: "smaller tree v (heap ! ?j) depth = Some (node_le tree depth v (heap ! ?j))"
      using node [of ?j] v j k by (intro smaller_eq) auto
    have step: "sift tree depth n v k (2 * k) heap =
        (if node_le tree depth v (heap ! ?j) then wr heap k v
         else sift tree depth n v ?j (2 * ?j) (heap[k := heap ! ?j]))"
      using True k r hj stop kl by (subst sift.simps) (simp add: array_simps Let_def del: if_split)
    show ?thesis
    proof (cases "node_le tree depth v (heap ! ?j)")
      case stop: True
      then have "node_le tree depth v (heap ! i)" if "i \<le> n" "i = 2 * k \<or> i = 2 * k + 1" for i
        using least [OF that] node_le_trans by blast
      with finish stop show ?thesis unfolding step by simp
    next
      case go: False
      let ?h = "heap[k := heap ! ?j]"
      have "node_le tree depth (heap ! ?j) v" using go node_le_total by blast
      from hole_down [OF h n j(1,2) least this] have hole: "hole tree depth ?h n lo v ?j" .
      have jl: "?j < length heap" using j n by linarith
      have swap: "?h[?j := v] = (heap[k := v])[k := (heap[k := v]) ! ?j, ?j := (heap[k := v]) ! k]"
        using kl j(3) by (simp add: list_update_swap)
      then have ms: "mset (?h[?j := v]) = mset (heap[k := v])"
        using mset_swap [of ?j "heap[k := v]" k] jl kl by simp
      have "heap_nodes tree depth (?h[?j := v]) n"
        using nodes v node j n kl jl k
        by (auto simp: heap_nodes_def nth_list_update)
      moreover have "n - ?j < n - k" "n < length ?h" using j(1,3) n by (linarith, simp)
      ultimately obtain heap' where
        "sift tree depth n v ?j (2 * ?j) ?h = Some heap'" "length heap' = length ?h"
        "heap_from tree depth heap' n lo" "mset heap' = mset (?h[?j := v])"
        "\<forall>i. i < ?j \<or> n < i \<longrightarrow> heap' ! i = ?h ! i"
        using less.hyps [OF _ hole] by blast
      with go ms j(3) k show ?thesis unfolding step by (auto simp del: if_split)
    qed
  qed
qed


section \<open>The heap\<close>

definition heap_ok :: "ct_data list \<Rightarrow> nat list \<Rightarrow> nat list \<Rightarrow> nat \<Rightarrow> nat \<Rightarrow> bool" where
  "heap_ok tree depth heap n lo \<longleftrightarrow> heap_nodes tree depth heap n \<and> heap_from tree depth heap n lo"

text \<open>The nodes in the heap.\<close>

definition heap_mset :: "nat list \<Rightarrow> nat \<Rightarrow> nat multiset" where
  "heap_mset heap n = mset (map ((!) heap) [1..<Suc n])"

lemma heap_mset_eq:
  assumes "mset heap' = mset heap" "n < length heap" "heap' ! 0 = heap ! 0" "\<And>i. n < i \<Longrightarrow> heap' ! i = heap ! i"
  shows "heap_mset heap' n = heap_mset heap n"
proof -
  have len: "length heap' = length heap" using assms(1) by (rule mset_eq_length)
  have split: "xs = xs ! 0 # map ((!) xs) [1..<Suc n] @ drop (Suc n) xs" if "n < length xs" for xs :: "nat list"
  proof -
    have "map ((!) xs) [0..<Suc n] = take (Suc n) xs"
      using that by (intro nth_equalityI) (simp_all del: upt_Suc)
    then have "map ((!) xs) [0..<Suc n] @ drop (Suc n) xs = xs" by (simp del: upt_Suc)
    then show ?thesis by (simp add: upt_conv_Cons del: upt_Suc)
  qed
  have "drop (Suc n) heap' = drop (Suc n) heap"
    using assms(4) len by (intro nth_equalityI) auto
  moreover have "mset heap = add_mset (heap ! 0) (heap_mset heap n + mset (drop (Suc n) heap))"
    using arg_cong [OF split [OF assms(2)], of mset] by (simp add: heap_mset_def del: upt_Suc)
  moreover have "mset heap' = add_mset (heap' ! 0) (heap_mset heap' n + mset (drop (Suc n) heap'))"
    using arg_cong [OF split [of heap'], of mset] assms(2) len by (simp add: heap_mset_def del: upt_Suc)
  ultimately show ?thesis using assms(1,3) by simp
qed

lemma heap_nodes_mset:
  "heap_nodes tree depth heap n \<longleftrightarrow> n < length heap \<and>
    (\<forall>v \<in># heap_mset heap n. v < length tree \<and> v < length depth)"
  by (auto simp: heap_nodes_def heap_mset_def less_Suc_eq_le simp del: upt_Suc)

lemma pqdownheap_ok:
  assumes heap: "heap_ok tree depth heap n (k + 1)" and k: "1 \<le> k" "k \<le> n"
  shows "\<exists>heap'. pqdownheap tree depth n k heap = Some heap' \<and> heap_ok tree depth heap' n k \<and>
    length heap' = length heap \<and> heap_mset heap' n = heap_mset heap n \<and>
    (\<forall>i. i < k \<or> n < i \<longrightarrow> heap' ! i = heap ! i)"
proof -
  let ?v = "heap ! k"
  have n: "n < length heap" using heap by (simp add: heap_ok_def heap_nodes_def)
  have same: "heap[k := ?v] = heap" by simp
  have "hole tree depth heap n k ?v k"
    using heap k unfolding hole_def heap_ok_def heap_from_def by auto
  moreover have "heap_nodes tree depth (heap[k := ?v]) n" using heap by (simp add: heap_ok_def)
  ultimately obtain heap' where h: "sift tree depth n ?v k (2 * k) heap = Some heap'" "length heap' = length heap"
      "heap_from tree depth heap' n k" "mset heap' = mset heap" "\<forall>i. i < k \<or> n < i \<longrightarrow> heap' ! i = heap ! i"
    using sift_ok [of tree depth heap n k ?v k] n same by metis
  have "heap_mset heap' n = heap_mset heap n" using h n k by (intro heap_mset_eq) auto
  moreover from this have "heap_nodes tree depth heap' n"
    using heap h(2) by (simp add: heap_ok_def heap_nodes_mset)
  ultimately show ?thesis using h k n by (simp add: pqdownheap_def array_simps heap_ok_def)
qed

text \<open>The first node is a least one.\<close>

lemma heap_least:
  assumes "heap_ok tree depth heap n 1" "v \<in># heap_mset heap n"
  shows "node_le tree depth (heap ! 1) v"
proof -
  have "1 \<le> i \<Longrightarrow> i \<le> n \<Longrightarrow> node_le tree depth (heap ! 1) (heap ! i)" for i
  proof (induction i rule: less_induct)
    case (less i)
    show ?case
    proof (cases "i = 1")
      case False
      then have f: "1 \<le> i div 2" "i div 2 < i" "i div 2 \<le> n" using less.prems by auto
      have "node_le tree depth (heap ! (i div 2)) (heap ! i)"
        using assms(1) f less.prems unfolding heap_ok_def heap_from_def
        by (metis dvd_mult_div_cancel even_two_times_div_two odd_two_times_div_two_succ)
      with less.IH [OF f(2,1,3)] show ?thesis by (rule node_le_trans)
    qed simp
  qed
  then show ?thesis using assms(2) by (auto simp: heap_mset_def less_Suc_eq_le simp del: upt_Suc)
qed

lemma pqremove_ok:
  assumes heap: "heap_ok tree depth heap n 1" and n: "2 \<le> n"
  shows "\<exists>heap'. pqremove tree depth heap n = Some (heap ! 1, heap', n - 1) \<and>
    heap_ok tree depth heap' (n - 1) 1 \<and> length heap' = length heap \<and>
    heap_mset heap n = add_mset (heap ! 1) (heap_mset heap' (n - 1)) \<and>
    (\<forall>i. i < 1 \<or> n \<le> i \<longrightarrow> heap' ! i = heap ! i)"
proof -
  let ?h = "heap[1 := heap ! n]"
  have l: "n < length heap" using heap by (simp add: heap_ok_def heap_nodes_def)
  have eq: "[1..<Suc n] = 1 # [2..<n] @ [n]" "[1..<Suc (n - 1)] = 1 # [2..<n]"
    using n by (simp_all add: upt_conv_Cons numeral_2_eq_2)
  have "map ((!) heap) [1..<Suc n] = heap ! 1 # map ((!) heap) [2..<n] @ [heap ! n]" unfolding eq by simp
  moreover have "map ((!) ?h) [1..<Suc (n - 1)] = heap ! n # map ((!) heap) [2..<n]"
    unfolding eq using l n by (auto simp: nth_list_update)
  ultimately have ms: "heap_mset heap n = add_mset (heap ! 1) (heap_mset ?h (n - 1))"
    unfolding heap_mset_def by (simp only: mset.simps mset_append) simp
  have "heap_from tree depth ?h (n - 1) (1 + 1)"
    using heap n by (auto simp: heap_ok_def heap_from_def)
  moreover have "heap_nodes tree depth ?h (n - 1)"
    using heap l ms by (simp add: heap_ok_def heap_nodes_mset)
  ultimately have "heap_ok tree depth ?h (n - 1) (1 + 1)" by (simp add: heap_ok_def)
  moreover have "1 \<le> n - 1" using n by linarith
  ultimately obtain heap' where h: "pqdownheap tree depth (n - 1) 1 ?h = Some heap'"
      "heap_ok tree depth heap' (n - 1) 1" "length heap' = length ?h" "heap_mset heap' (n - 1) = heap_mset ?h (n - 1)"
      "\<forall>i. i < 1 \<or> n - 1 < i \<longrightarrow> heap' ! i = ?h ! i"
    using pqdownheap_ok [of tree depth ?h "n - 1" 1] by auto
  moreover have "1 < length heap" using l n by linarith
  ultimately show ?thesis using l n ms
    by (auto simp: pqremove_def SMALLEST_def array_simps)
qed


section \<open>Properties\<close>

text \<open>C23: \<open>pqdownheap\<close> restores the order of the heap below a node, given the order below its sons: it
  stays within its arrays, permutes the nodes of the heap and moves nothing before the node or
  behind the heap.\<close>

theorem pqdownheap_restores:
  assumes "heap_ok tree depth heap n (k + 1)" "1 \<le> k" "k \<le> n"
  shows "\<exists>heap'. pqdownheap tree depth n k heap = Some heap' \<and> heap_ok tree depth heap' n k \<and>
    length heap' = length heap \<and> heap_mset heap' n = heap_mset heap n \<and>
    (\<forall>i. i < k \<or> n < i \<longrightarrow> heap' ! i = heap ! i)"
  using assms by (rule pqdownheap_ok)

definition three_nodes :: "ct_data list" where
  "three_nodes = [\<lparr>fc = 5, dl = 0\<rparr>, \<lparr>fc = 2, dl = 0\<rparr>, \<lparr>fc = 3, dl = 0\<rparr>]"

theorem pqdownheap_restores_witness:
  "\<exists>heap'. pqdownheap three_nodes [0, 0, 0] 3 1 [9, 0, 1, 2] = Some heap' \<and>
    heap_ok three_nodes [0, 0, 0] heap' 3 1 \<and> length heap' = length [9, 0, 1, 2::nat] \<and>
    heap_mset heap' 3 = heap_mset [9, 0, 1, 2] 3 \<and>
    (\<forall>i. i < 1 \<or> 3 < i \<longrightarrow> heap' ! i = [9, 0, 1, 2] ! i)"
proof (rule pqdownheap_restores)
  have "heap_nodes three_nodes [0, 0, 0] [9, 0, 1, 2] 3"
    by (auto simp: heap_nodes_mset heap_mset_def three_nodes_def numeral_3_eq_3)
  then show "heap_ok three_nodes [0, 0, 0] [9, 0, 1, 2] 3 (1 + 1)"
    by (auto simp: heap_ok_def heap_from_def)
qed simp_all

text \<open>C24: \<open>pqremove\<close> takes a node of least frequency and depth from the heap and leaves a heap of the
  others.\<close>

theorem pqremove_least:
  assumes "heap_ok tree depth heap n 1" "2 \<le> n"
  shows "\<exists>top heap'. pqremove tree depth heap n = Some (top, heap', n - 1) \<and>
    (\<forall>v \<in># heap_mset heap n. node_le tree depth top v) \<and>
    heap_ok tree depth heap' (n - 1) 1 \<and> heap_mset heap n = add_mset top (heap_mset heap' (n - 1))"
  using pqremove_ok [OF assms] heap_least [OF assms(1)] by auto

theorem pqremove_least_witness:
  "\<exists>top heap'. pqremove three_nodes [0, 0, 0] [9, 1, 0, 2] 3 = Some (top, heap', 3 - 1) \<and>
    (\<forall>v \<in># heap_mset [9, 1, 0, 2] 3. node_le three_nodes [0, 0, 0] top v) \<and>
    heap_ok three_nodes [0, 0, 0] heap' (3 - 1) 1 \<and>
    heap_mset [9, 1, 0, 2] 3 = add_mset top (heap_mset heap' (3 - 1))"
proof (rule pqremove_least)
  have "heap_nodes three_nodes [0, 0, 0] [9, 1, 0, 2] 3"
    by (auto simp: heap_nodes_mset heap_mset_def three_nodes_def numeral_3_eq_3)
  moreover have "heap_from three_nodes [0, 0, 0] [9, 1, 0, 2] 3 1"
  unfolding heap_from_def
  proof (intro allI impI)
    fix i j :: nat assume "1 \<le> i \<and> 1 \<le> i \<and> j \<le> 3 \<and> (j = 2 * i \<or> j = 2 * i + 1)"
    then have "i = 1" "j = 2 \<or> j = 3" by presburger+
    then show "node_le three_nodes [0, 0, 0] ([9, 1, 0, 2] ! i) ([9, 1, 0, 2] ! j)"
      by (auto simp: node_le_def three_nodes_def)
  qed
  ultimately show "heap_ok three_nodes [0, 0, 0] [9, 1, 0, 2] 3 1" by (simp add: heap_ok_def)
qed simp

end
