(* ===== verification/Trees_Build.thy ===== *)
theory Trees_Build imports Trees_Heap Trees_Codes begin

text \<open>
  \<^verbatim>\<open>libz_u/trees.c\<close>: the construction of a Huffman tree.  \<open>build_tree\<close> makes a heap of the symbols
  that occur, joins the two least nodes until one is left, and keeps the nodes in the upper
  part of the heap array in the order they were taken; \<open>gen_bitlen\<close> goes over them to set
  the code lengths and repairs lengths above the limit; \<open>gen_codes\<close> assigns the codes.
\<close>

section \<open>The data\<close>

text \<open>The fields of \<open>deflate_state\<close> that the construction works on, and the tree itself.\<close>

record hstate =
  h_tree :: "ct_data list"
  h_heap :: "nat list"
  h_len :: nat              \<comment> \<open>\<open>heap_len\<close>\<close>
  h_max :: nat              \<comment> \<open>\<open>heap_max\<close>\<close>
  h_depth :: "nat list"
  h_count :: "nat list"     \<comment> \<open>\<open>bl_count\<close>\<close>
  h_opt :: u64              \<comment> \<open>\<open>opt_len\<close>\<close>
  h_static :: u64           \<comment> \<open>\<open>static_len\<close>\<close>

record static_tree_desc =
  static_tree :: "ct_data list option"
  extra_bits :: "nat list"
  extra_base :: nat
  elems :: nat
  max_length :: nat

definition static_l_desc :: static_tree_desc where
  "static_l_desc = \<lparr>static_tree = Some static_ltree, extra_bits = extra_lbits, extra_base = LITERALS + 1,
     elems = L_CODES, max_length = MAX_BITS\<rparr>"

definition static_d_desc :: static_tree_desc where
  "static_d_desc = \<lparr>static_tree = Some static_dtree, extra_bits = extra_dbits, extra_base = 0,
     elems = D_CODES, max_length = MAX_BITS\<rparr>"

definition static_bl_desc :: static_tree_desc where
  "static_bl_desc = \<lparr>static_tree = None, extra_bits = extra_blbits, extra_base = 0,
     elems = BL_CODES, max_length = MAX_BL_BITS\<rparr>"

section \<open>\<open>gen_bitlen\<close>\<close>

definition set_len :: "ct_data list \<Rightarrow> nat \<Rightarrow> nat \<Rightarrow> ct_data list option" where
  "set_len tree n l = do { e \<leftarrow> rd tree n; wr tree n (e\<lparr>dl := l mod 65536\<rparr>) }"

definition count_up :: "nat list \<Rightarrow> nat \<Rightarrow> int \<Rightarrow> nat list option" where
  "count_up cnt l k = do { c \<leftarrow> rd cnt l; wr cnt l (nat ((int c + k) mod 65536)) }"

text \<open>The first pass, from the index \<open>h\<close> on; \<open>todo\<close> is \<open>HEAP_SIZE - h\<close>.\<close>

fun bitlen_loop :: "static_tree_desc \<Rightarrow> nat \<Rightarrow> nat \<Rightarrow> nat \<Rightarrow> nat \<Rightarrow> hstate \<Rightarrow> (nat \<times> hstate) option" where
  "bitlen_loop desc max_code h 0 overflow s = Some (overflow, s)"
| "bitlen_loop desc max_code h (Suc todo) overflow s =
     do { n \<leftarrow> rd (h_heap s) h;
          e \<leftarrow> rd (h_tree s) n;
          dad \<leftarrow> rd (h_tree s) (dl e);
          let bits = dl dad + 1;
          let over = bits > max_length desc;
          let bits = (if over then max_length desc else bits);
          let overflow = (if over then overflow + 1 else overflow);
          tree \<leftarrow> set_len (h_tree s) n bits;
          let s = s\<lparr>h_tree := tree\<rparr>;
          if n > max_code then bitlen_loop desc max_code (h + 1) todo overflow s
          else do {
            cnt \<leftarrow> count_up (h_count s) bits 1;
            xbits \<leftarrow> (if n \<ge> extra_base desc then rd (extra_bits desc) (n - extra_base desc) else Some 0);
            static \<leftarrow> (case static_tree desc of
                None \<Rightarrow> Some (h_static s)
              | Some stree \<Rightarrow> do { se \<leftarrow> rd stree n;
                                   Some (h_static s + word_of_nat (fc e) * word_of_nat (dl se + xbits)) });
            bitlen_loop desc max_code (h + 1) todo overflow
              (s\<lparr>h_count := cnt, h_opt := h_opt s + word_of_nat (fc e) * word_of_nat (bits + xbits),
                h_static := static\<rparr>) } }"

text \<open>\<open>while (s->bl_count[bits] == 0) bits--;\<close>\<close>

fun find_bits :: "nat list \<Rightarrow> nat \<Rightarrow> nat option" where
  "find_bits cnt 0 = (if cnt ! 0 = 0 then None else Some 0)"
| "find_bits cnt (Suc b) = (if cnt ! Suc b = 0 then find_bits cnt b else Some (Suc b))"

definition move_leaf :: "nat \<Rightarrow> nat list \<Rightarrow> nat list option" where
  "move_leaf mx cnt =
    (if mx = 0 \<or> length cnt \<le> mx then None
     else do {
       bits \<leftarrow> find_bits cnt (mx - 1);
       cnt \<leftarrow> count_up cnt bits (-1);
       cnt \<leftarrow> count_up cnt (bits + 1) 2;
       count_up cnt mx (-1) })"

text \<open>\<open>do { \<dots>; overflow -= 2; } while (overflow > 0);\<close> for an overflow above 0.\<close>

function fix_overflow :: "nat \<Rightarrow> nat \<Rightarrow> nat list \<Rightarrow> nat list option" where
  "fix_overflow mx overflow cnt =
     do { cnt \<leftarrow> move_leaf mx cnt;
          if overflow > 2 then fix_overflow mx (overflow - 2) cnt else Some cnt }"
  by pat_completeness auto
termination by (relation "measure (\<lambda>(mx, overflow, cnt). overflow)") auto

declare fix_overflow.simps [simp del]

text \<open>Setting \<open>n\<close> leaves to \<open>bits\<close>, from the index below \<open>h\<close> down; the rest of the index.\<close>

fun set_leaves :: "nat \<Rightarrow> nat \<Rightarrow> nat \<Rightarrow> nat \<Rightarrow> hstate \<Rightarrow> (nat \<times> hstate) option" where
  "set_leaves max_code bits 0 h s = Some (h, s)"
| "set_leaves max_code bits (Suc n) 0 s = None"
| "set_leaves max_code bits (Suc n) (Suc h) s =
     do { m \<leftarrow> rd (h_heap s) h;
          if m > max_code then set_leaves max_code bits (Suc n) h s
          else do {
            e \<leftarrow> rd (h_tree s) m;
            if dl e \<noteq> bits then
              do { tree \<leftarrow> set_len (h_tree s) m bits;
                   set_leaves max_code bits n h
                     (s\<lparr>h_opt := h_opt s + word_of_int ((int bits - int (dl e)) * int (fc e)), h_tree := tree\<rparr>) }
            else set_leaves max_code bits n h s } }"

fun set_all :: "nat \<Rightarrow> nat \<Rightarrow> nat \<Rightarrow> hstate \<Rightarrow> hstate option" where
  "set_all max_code 0 h s = Some s"
| "set_all max_code (Suc b) h s =
     do { n \<leftarrow> rd (h_count s) (Suc b);
          (h, s) \<leftarrow> set_leaves max_code (Suc b) n h s;
          set_all max_code b h s }"

definition gen_bitlen :: "static_tree_desc \<Rightarrow> nat \<Rightarrow> hstate \<Rightarrow> hstate option" where
  "gen_bitlen desc max_code s =
     do { root \<leftarrow> rd (h_heap s) (h_max s);
          tree \<leftarrow> set_len (h_tree s) root 0;
          (overflow, s) \<leftarrow> bitlen_loop desc max_code (h_max s + 1) (HEAP_SIZE - (h_max s + 1)) 0
            (s\<lparr>h_tree := tree, h_count := replicate (MAX_BITS + 1) 0\<rparr>);
          if overflow = 0 then Some s
          else do {
            cnt \<leftarrow> fix_overflow (max_length desc) overflow (h_count s);
            set_all max_code (max_length desc) HEAP_SIZE (s\<lparr>h_count := cnt\<rparr>) } }"

section \<open>\<open>build_tree\<close>\<close>

text \<open>The initial heap, from the symbol \<open>n\<close> on; \<open>max_code\<close> is the last symbol that occurs.\<close>

fun init_heap :: "nat \<Rightarrow> nat \<Rightarrow> int \<Rightarrow> hstate \<Rightarrow> (int \<times> hstate) option" where
  "init_heap n 0 max_code s = Some (max_code, s)"
| "init_heap n (Suc todo) max_code s =
     do { e \<leftarrow> rd (h_tree s) n;
          if fc e \<noteq> 0 then
            do { heap \<leftarrow> wr (h_heap s) (h_len s + 1) n;
                 depth \<leftarrow> wr (h_depth s) n 0;
                 init_heap (n + 1) todo (int n)
                   (s\<lparr>h_len := h_len s + 1, h_heap := heap, h_depth := depth\<rparr>) }
          else
            do { tree \<leftarrow> set_len (h_tree s) n 0; init_heap (n + 1) todo max_code (s\<lparr>h_tree := tree\<rparr>) } }"

text \<open>At least two codes.\<close>

function force_two :: "static_tree_desc \<Rightarrow> int \<Rightarrow> hstate \<Rightarrow> (int \<times> hstate) option" where
  "force_two desc max_code s =
    (if h_len s < 2 then
       do { let max_code' = (if max_code < 2 then max_code + 1 else max_code);
            let node = (if max_code < 2 then nat (max_code + 1) else 0);
            heap \<leftarrow> wr (h_heap s) (h_len s + 1) node;
            e \<leftarrow> rd (h_tree s) node;
            tree \<leftarrow> wr (h_tree s) node (e\<lparr>fc := 1\<rparr>);
            depth \<leftarrow> wr (h_depth s) node 0;
            static \<leftarrow> (case static_tree desc of
                None \<Rightarrow> Some (h_static s)
              | Some stree \<Rightarrow> do { se \<leftarrow> rd stree node; Some (h_static s - word_of_nat (dl se)) });
            force_two desc max_code'
              (s\<lparr>h_len := h_len s + 1, h_heap := heap, h_tree := tree, h_depth := depth,
                h_opt := h_opt s - 1, h_static := static\<rparr>) }
     else Some (max_code, s))"
  by pat_completeness auto
termination by (relation "measure (\<lambda>(desc, max_code, s). 2 - h_len s)") auto

declare force_two.simps [simp del]

fun make_heap :: "nat \<Rightarrow> hstate \<Rightarrow> hstate option" where
  "make_heap 0 s = Some s"
| "make_heap (Suc n) s =
     do { heap \<leftarrow> pqdownheap (h_tree s) (h_depth s) (h_len s) (Suc n) (h_heap s);
          make_heap n (s\<lparr>h_heap := heap\<rparr>) }"

text \<open>One round of the loop that joins the two least nodes.\<close>

definition join :: "nat \<Rightarrow> hstate \<Rightarrow> hstate option" where
  "join node s =
     do { (n, heap, len) \<leftarrow> pqremove (h_tree s) (h_depth s) (h_heap s) (h_len s);
          m \<leftarrow> rd heap SMALLEST;
          if h_max s < 2 then None
          else do {
            heap \<leftarrow> wr heap (h_max s - 1) n;
            heap \<leftarrow> wr heap (h_max s - 2) m;
            en \<leftarrow> rd (h_tree s) n;
            em \<leftarrow> rd (h_tree s) m;
            enode \<leftarrow> rd (h_tree s) node;
            tree \<leftarrow> wr (h_tree s) node (enode\<lparr>fc := (fc en + fc em) mod 65536\<rparr>);
            dn \<leftarrow> rd (h_depth s) n;
            dm \<leftarrow> rd (h_depth s) m;
            depth \<leftarrow> wr (h_depth s) node (((if dn \<ge> dm then dn else dm) + 1) mod 256);
            tree \<leftarrow> set_len tree m node;   \<comment> \<open>\<open>Dad\<close>\<close>
            tree \<leftarrow> set_len tree n node;
            heap \<leftarrow> wr heap SMALLEST node;
            heap \<leftarrow> pqdownheap tree depth len SMALLEST heap;
            Some (s\<lparr>h_tree := tree, h_heap := heap, h_len := len, h_max := h_max s - 2, h_depth := depth\<rparr>) } }"

function join_all :: "nat \<Rightarrow> hstate \<Rightarrow> hstate option" where
  "join_all node s =
    (if h_len s < 2 then None   \<comment> \<open>at least two nodes are left\<close>
     else do { s' \<leftarrow> join node s; if h_len s' \<ge> 2 then join_all (node + 1) s' else Some s' })"
  by pat_completeness auto
termination
  by (relation "measure (\<lambda>(node, s). h_len s)")
    (auto simp: join_def pqremove_def bind_eq_Some_conv split: prod.splits if_splits)

declare join_all.simps [simp del]

definition build_tree :: "static_tree_desc \<Rightarrow> hstate \<Rightarrow> (nat \<times> hstate) option" where
  "build_tree desc s =
     do { (max_code, s) \<leftarrow> init_heap 0 (elems desc) (-1) (s\<lparr>h_len := 0, h_max := HEAP_SIZE\<rparr>);
          (max_code, s) \<leftarrow> force_two desc max_code s;
          let max_code = nat max_code;
          s \<leftarrow> make_heap (h_len s div 2) s;
          s \<leftarrow> join_all (elems desc) s;
          top \<leftarrow> rd (h_heap s) SMALLEST;
          if h_max s = 0 then None
          else do {
            heap \<leftarrow> wr (h_heap s) (h_max s - 1) top;
            s \<leftarrow> gen_bitlen desc max_code (s\<lparr>h_heap := heap, h_max := h_max s - 1\<rparr>);
            tree \<leftarrow> gen_codes (h_tree s) max_code (h_count s);
            Some (max_code, s\<lparr>h_tree := tree\<rparr>) } }"

end
