(* ===== verification/Trees_Block.thy ===== *)
theory Trees_Block imports Trees_Scan Trees_Build begin

text \<open>
  \<^verbatim>\<open>libz_u/trees.c\<close>: from the symbols of a block to its bits.  \<open>_tr_tally\<close> records literals and
  matches and counts their codes, \<open>_tr_flush_block\<close> builds the trees, chooses between a
  stored block, the static trees and the dynamic ones, and sends the block.  The
  buffers of the symbols are parts of the pending buffer, as in \<^verbatim>\<open>deflateInit2_\<close>.
\<close>

section \<open>The state\<close>

definition Z_FIXED :: nat where "Z_FIXED = 4"
definition Z_BINARY :: nat where "Z_BINARY = 0"
definition Z_TEXT :: nat where "Z_TEXT = 1"
definition Z_UNKNOWN :: nat where "Z_UNKNOWN = 2"

text \<open>The fields of \<open>deflate_state\<close> that \<^verbatim>\<open>trees.c\<close> uses; \<open>data_type\<close> is the stream's.\<close>

record dstate = ostate +
  level :: nat
  strategy :: nat
  data_type :: nat
  dyn_ltree :: "ct_data list"
  dyn_dtree :: "ct_data list"
  bl_tree :: "ct_data list"
  l_max_code :: nat         \<comment> \<open>\<open>l_desc.max_code\<close>\<close>
  d_max_code :: nat
  bl_max_code :: nat
  bl_count :: "nat list"
  heap :: "nat list"
  heap_len :: nat
  heap_max :: nat
  depth :: "nat list"
  lit_bufsize :: nat
  last_lit :: nat
  opt_len :: u64
  static_len :: u64
  matches :: nat

text \<open>\<open>d_buf\<close> starts at the byte \<open>lit_bufsize\<close> of the pending buffer, \<open>l_buf\<close> at \<open>3 * lit_bufsize\<close>;
  an \<open>ush\<close> is stored with its high byte first.\<close>

definition get_d_buf :: "'a dstate_scheme \<Rightarrow> nat \<Rightarrow> nat option" where
  "get_d_buf s i =
     do { hi \<leftarrow> rd (pending_buf s) (lit_bufsize s + 2 * i);
          lo \<leftarrow> rd (pending_buf s) (lit_bufsize s + 2 * i + 1);
          Some (256 * hi + lo) }"

definition set_d_buf :: "'a dstate_scheme \<Rightarrow> nat \<Rightarrow> nat \<Rightarrow> 'a dstate_scheme option" where
  "set_d_buf s i d =
     do { buf \<leftarrow> wr (pending_buf s) (lit_bufsize s + 2 * i) (d mod 65536 div 256);
          buf \<leftarrow> wr buf (lit_bufsize s + 2 * i + 1) (d mod 256);
          Some (s\<lparr>pending_buf := buf\<rparr>) }"

definition get_l_buf :: "'a dstate_scheme \<Rightarrow> nat \<Rightarrow> nat option" where
  "get_l_buf s i = rd (pending_buf s) (3 * lit_bufsize s + i)"

definition set_l_buf :: "'a dstate_scheme \<Rightarrow> nat \<Rightarrow> nat \<Rightarrow> 'a dstate_scheme option" where
  "set_l_buf s i c =
     do { buf \<leftarrow> wr (pending_buf s) (3 * lit_bufsize s + i) (c mod 256); Some (s\<lparr>pending_buf := buf\<rparr>) }"

section \<open>The start of a block\<close>

text \<open>\<open>for (n = 0; n < k; n++) tree[n].Freq = 0;\<close>\<close>

definition clear_freqs :: "nat \<Rightarrow> ct_data list \<Rightarrow> ct_data list option" where
  "clear_freqs k tree =
    (if k \<le> length tree then Some (map (\<lambda>e. e\<lparr>fc := 0\<rparr>) (take k tree) @ drop k tree) else None)"

definition init_block :: "'a dstate_scheme \<Rightarrow> 'a dstate_scheme option" where
  "init_block s =
     do { lt \<leftarrow> clear_freqs L_CODES (dyn_ltree s);
          dt \<leftarrow> clear_freqs D_CODES (dyn_dtree s);
          bt \<leftarrow> clear_freqs BL_CODES (bl_tree s);
          e \<leftarrow> rd lt END_BLOCK;
          lt \<leftarrow> wr lt END_BLOCK (e\<lparr>fc := 1\<rparr>);
          Some (s\<lparr>dyn_ltree := lt, dyn_dtree := dt, bl_tree := bt, opt_len := 0, static_len := 0,
                last_lit := 0, matches := 0\<rparr>) }"

definition tr_init :: "'a dstate_scheme \<Rightarrow> 'a dstate_scheme option" where
  "tr_init s = init_block (s\<lparr>bi_buf := 0, bi_valid := 0\<rparr>)"

section \<open>Recording a symbol\<close>

definition tr_tally :: "'a dstate_scheme \<Rightarrow> nat \<Rightarrow> nat \<Rightarrow> (bool \<times> 'a dstate_scheme) option" where
  "tr_tally s dist lc =
     do { s \<leftarrow> set_d_buf s (last_lit s) dist;
          s \<leftarrow> set_l_buf s (last_lit s) lc;
          let s = s\<lparr>last_lit := last_lit s + 1\<rparr>;
          s \<leftarrow> (if dist = 0 then
                  do { lt \<leftarrow> add_freq (dyn_ltree s) lc 1; Some (s\<lparr>dyn_ltree := lt\<rparr>) }
                else
                  do { c \<leftarrow> rd length_code lc;
                       lt \<leftarrow> add_freq (dyn_ltree s) (c + LITERALS + 1) 1;
                       d \<leftarrow> d_code (dist - 1);
                       dt \<leftarrow> add_freq (dyn_dtree s) d 1;
                       Some (s\<lparr>matches := matches s + 1, dyn_ltree := lt, dyn_dtree := dt\<rparr>) });
          Some (last_lit s = lit_bufsize s - 1, s) }"

text \<open>The inline versions that \<^verbatim>\<open>deflate.c\<close> uses; \<open>matches\<close> is not counted there.\<close>

definition tr_tally_lit :: "'a dstate_scheme \<Rightarrow> nat \<Rightarrow> (bool \<times> 'a dstate_scheme) option" where
  "tr_tally_lit s c =
     do { let cc = c mod 256;
          s \<leftarrow> set_d_buf s (last_lit s) 0;
          s \<leftarrow> set_l_buf s (last_lit s) cc;
          lt \<leftarrow> add_freq (dyn_ltree s) cc 1;
          let s = s\<lparr>last_lit := last_lit s + 1, dyn_ltree := lt\<rparr>;
          Some (last_lit s = lit_bufsize s - 1, s) }"

definition tr_tally_dist :: "'a dstate_scheme \<Rightarrow> nat \<Rightarrow> nat \<Rightarrow> (bool \<times> 'a dstate_scheme) option" where
  "tr_tally_dist s distance len =
     do { let len = len mod 256;
          let dist = distance mod 65536;
          s \<leftarrow> set_d_buf s (last_lit s) dist;
          s \<leftarrow> set_l_buf s (last_lit s) len;
          c \<leftarrow> rd length_code len;
          lt \<leftarrow> add_freq (dyn_ltree s) (c + LITERALS + 1) 1;
          d \<leftarrow> d_code ((dist + 65535) mod 65536);
          dt \<leftarrow> add_freq (dyn_dtree s) d 1;
          let s = s\<lparr>last_lit := last_lit s + 1, dyn_ltree := lt, dyn_dtree := dt\<rparr>;
          Some (last_lit s = lit_bufsize s - 1, s) }"

section \<open>Sending the symbols\<close>

text \<open>One turn of the loop of \<open>compress_block\<close>: a literal, or a match with its extra bits.\<close>

definition send_extra :: "'a ostate_scheme \<Rightarrow> nat \<Rightarrow> nat list \<Rightarrow> nat list \<Rightarrow> nat \<Rightarrow> 'a ostate_scheme option" where
  "send_extra s code extra_len base v =
     do { extra \<leftarrow> rd extra_len code;
          if extra \<noteq> 0 then do { b \<leftarrow> rd base code; send_bits s (v - b) extra } else Some s }"

definition send_symbol ::
    "'a ostate_scheme \<Rightarrow> ct_data list \<Rightarrow> ct_data list \<Rightarrow> nat \<Rightarrow> nat \<Rightarrow> 'a ostate_scheme option" where
  "send_symbol s ltree dtree dist lc =
    (if dist = 0 then send_code s lc ltree
     else do {
       code \<leftarrow> rd length_code lc;
       s \<leftarrow> send_code s (code + LITERALS + 1) ltree;
       s \<leftarrow> send_extra s code extra_lbits base_length lc;
       code \<leftarrow> d_code (dist - 1);
       s \<leftarrow> send_code s code dtree;
       send_extra s code extra_dbits base_dist (dist - 1) })"

text \<open>The loop, \<open>todo\<close> symbols from \<open>lx\<close> on.\<close>

fun compress_loop ::
    "'a dstate_scheme \<Rightarrow> ct_data list \<Rightarrow> ct_data list \<Rightarrow> nat \<Rightarrow> nat \<Rightarrow> 'a dstate_scheme option" where
  "compress_loop s ltree dtree lx 0 = Some s"
| "compress_loop s ltree dtree lx (Suc todo) =
     do { dist \<leftarrow> get_d_buf s lx;
          lc \<leftarrow> get_l_buf s lx;
          s \<leftarrow> send_symbol s ltree dtree dist lc;
          compress_loop s ltree dtree (lx + 1) todo }"

definition compress_block ::
    "'a dstate_scheme \<Rightarrow> ct_data list \<Rightarrow> ct_data list \<Rightarrow> 'a dstate_scheme option" where
  "compress_block s ltree dtree =
     do { s \<leftarrow> compress_loop s ltree dtree 0 (last_lit s); send_code s END_BLOCK ltree }"

section \<open>The trees of a block\<close>

text \<open>The fields \<open>build_tree\<close> works on, and their values put back.\<close>

definition to_hstate :: "'a dstate_scheme \<Rightarrow> ct_data list \<Rightarrow> hstate" where
  "to_hstate s tree = \<lparr>h_tree = tree, h_heap = heap s, h_len = heap_len s, h_max = heap_max s,
     h_depth = depth s, h_count = bl_count s, h_opt = opt_len s, h_static = static_len s\<rparr>"

definition of_hstate :: "'a dstate_scheme \<Rightarrow> hstate \<Rightarrow> 'a dstate_scheme" where
  "of_hstate s h = s\<lparr>heap := h_heap h, heap_len := h_len h, heap_max := h_max h, depth := h_depth h,
     bl_count := h_count h, opt_len := h_opt h, static_len := h_static h\<rparr>"

definition build_ltree :: "'a dstate_scheme \<Rightarrow> 'a dstate_scheme option" where
  "build_ltree s =
     do { (mc, h) \<leftarrow> build_tree static_l_desc (to_hstate s (dyn_ltree s));
          Some ((of_hstate s h)\<lparr>dyn_ltree := h_tree h, l_max_code := mc\<rparr>) }"

definition build_dtree :: "'a dstate_scheme \<Rightarrow> 'a dstate_scheme option" where
  "build_dtree s =
     do { (mc, h) \<leftarrow> build_tree static_d_desc (to_hstate s (dyn_dtree s));
          Some ((of_hstate s h)\<lparr>dyn_dtree := h_tree h, d_max_code := mc\<rparr>) }"

definition build_btree :: "'a dstate_scheme \<Rightarrow> 'a dstate_scheme option" where
  "build_btree s =
     do { (mc, h) \<leftarrow> build_tree static_bl_desc (to_hstate s (bl_tree s));
          Some ((of_hstate s h)\<lparr>bl_tree := h_tree h, bl_max_code := mc\<rparr>) }"

text \<open>\<open>for (max_blindex = n; max_blindex >= 3; max_blindex--)\<close> until a length that is not 0.\<close>

fun last_blindex :: "ct_data list \<Rightarrow> nat \<Rightarrow> nat option" where
  "last_blindex bl n =
    (if n < 3 then Some n
     else do { i \<leftarrow> rd bl_order n;
               e \<leftarrow> rd bl i;
               if dl e \<noteq> 0 then Some n else last_blindex bl (n - 1) })"

declare last_blindex.simps [simp del]

definition build_bl_tree :: "'a dstate_scheme \<Rightarrow> (nat \<times> 'a dstate_scheme) option" where
  "build_bl_tree s =
     do { (lt, bl) \<leftarrow> scan_tree (dyn_ltree s) (l_max_code s) (bl_tree s);
          (dt, bl) \<leftarrow> scan_tree (dyn_dtree s) (d_max_code s) bl;
          s \<leftarrow> build_btree (s\<lparr>dyn_ltree := lt, dyn_dtree := dt, bl_tree := bl\<rparr>);
          mb \<leftarrow> last_blindex (bl_tree s) (BL_CODES - 1);
          Some (mb, s\<lparr>opt_len := opt_len s + word_of_nat (3 * (mb + 1) + 5 + 5 + 4)\<rparr>) }"

text \<open>\<open>for (rank = r; rank < blcodes; rank++)\<close>, \<open>todo\<close> of them.\<close>

fun send_ranks :: "'a ostate_scheme \<Rightarrow> ct_data list \<Rightarrow> nat \<Rightarrow> nat \<Rightarrow> 'a ostate_scheme option" where
  "send_ranks s bl r 0 = Some s"
| "send_ranks s bl r (Suc todo) =
     do { i \<leftarrow> rd bl_order r;
          e \<leftarrow> rd bl i;
          s \<leftarrow> send_bits s (dl e) 3;
          send_ranks s bl (r + 1) todo }"

definition send_all_trees :: "'a dstate_scheme \<Rightarrow> nat \<Rightarrow> nat \<Rightarrow> nat \<Rightarrow> 'a dstate_scheme option" where
  "send_all_trees s lcodes dcodes blcodes =
     do { s \<leftarrow> send_bits s (lcodes - 257) 5;
          s \<leftarrow> send_bits s (dcodes - 1) 5;
          s \<leftarrow> send_bits s (blcodes - 4) 4;
          s \<leftarrow> send_ranks s (bl_tree s) 0 blcodes;
          s \<leftarrow> send_tree s (dyn_ltree s) (lcodes - 1) (bl_tree s);
          send_tree s (dyn_dtree s) (dcodes - 1) (bl_tree s) }"

section \<open>The kind of the data\<close>

text \<open>\<open>for (n = 0; n <= 31; n++, black_mask >>= 1)\<close>: a byte of the black list occurs.\<close>

definition black_mask :: u64 where "black_mask = 0xf3ffc07f"

fun black_listed :: "ct_data list \<Rightarrow> u64 \<Rightarrow> nat \<Rightarrow> nat \<Rightarrow> bool option" where
  "black_listed lt msk n 0 = Some False"
| "black_listed lt msk n (Suc todo) =
     do { e \<leftarrow> rd lt n;
          if msk AND 1 \<noteq> 0 \<and> fc e \<noteq> 0 then Some True
          else black_listed lt (drop_bit 1 msk) (n + 1) todo }"

fun some_freq :: "ct_data list \<Rightarrow> nat \<Rightarrow> nat \<Rightarrow> bool option" where
  "some_freq lt n 0 = Some False"
| "some_freq lt n (Suc todo) =
     do { e \<leftarrow> rd lt n; if fc e \<noteq> 0 then Some True else some_freq lt (n + 1) todo }"

definition detect_data_type :: "'a dstate_scheme \<Rightarrow> nat option" where
  "detect_data_type s =
     do { black \<leftarrow> black_listed (dyn_ltree s) black_mask 0 32;
          if black then Some Z_BINARY
          else do {
            tab \<leftarrow> rd (dyn_ltree s) 9;
            lf \<leftarrow> rd (dyn_ltree s) 10;
            cr \<leftarrow> rd (dyn_ltree s) 13;
            if fc tab \<noteq> 0 \<or> fc lf \<noteq> 0 \<or> fc cr \<noteq> 0 then Some Z_TEXT
            else do {
              text \<leftarrow> some_freq (dyn_ltree s) 32 (LITERALS - 32);
              Some (if text then Z_TEXT else Z_BINARY) } } }"

section \<open>A block\<close>

definition tr_align :: "'a dstate_scheme \<Rightarrow> 'a dstate_scheme option" where
  "tr_align s =
     do { s \<leftarrow> send_bits s (2 * STATIC_TREES) 3; s \<leftarrow> send_code s END_BLOCK static_ltree; bi_flush s }"

text \<open>The lengths in bytes and the last index of the bit length codes, trees built if needed.\<close>

definition block_lens :: "'a dstate_scheme \<Rightarrow> u64 \<Rightarrow> (u64 \<times> u64 \<times> nat \<times> 'a dstate_scheme) option" where
  "block_lens s stored_len =
    (if level s > 0 then
       do { s \<leftarrow> (if data_type s = Z_UNKNOWN then
                    do { t \<leftarrow> detect_data_type s; Some (s\<lparr>data_type := t\<rparr>) }
                  else Some s);
            s \<leftarrow> build_ltree s;
            s \<leftarrow> build_dtree s;
            (max_blindex, s) \<leftarrow> build_bl_tree s;
            let opt_lenb = drop_bit 3 (opt_len s + 3 + 7);
            let static_lenb = drop_bit 3 (static_len s + 3 + 7);
            Some (if static_lenb \<le> opt_lenb then static_lenb else opt_lenb, static_lenb, max_blindex, s) }
     else Some (stored_len + 5, stored_len + 5, 0, s))"

definition tr_flush_block ::
    "'a dstate_scheme \<Rightarrow> nat list option \<Rightarrow> u64 \<Rightarrow> nat \<Rightarrow> 'a dstate_scheme option" where
  "tr_flush_block s buf stored_len fin =
     do { (opt_lenb, static_lenb, max_blindex, s) \<leftarrow> block_lens s stored_len;
          s \<leftarrow> (if stored_len + 4 \<le> opt_lenb \<and> buf \<noteq> None then
                  tr_stored_block s (the buf) (unat stored_len) fin
                else if strategy s = Z_FIXED \<or> static_lenb = opt_lenb then
                  do { s \<leftarrow> send_bits s (2 * STATIC_TREES + fin) 3;
                       compress_block s static_ltree static_dtree }
                else
                  do { s \<leftarrow> send_bits s (2 * DYN_TREES + fin) 3;
                       s \<leftarrow> send_all_trees s (l_max_code s + 1) (d_max_code s + 1) (max_blindex + 1);
                       compress_block s (dyn_ltree s) (dyn_dtree s) });
          s \<leftarrow> init_block s;
          if fin \<noteq> 0 then bi_windup s else Some s }"

end
