(* ===== verification/Inflate_Modes.thy ===== *)
theory Inflate_Modes imports Adler32 Crc32 Trees_Fixed begin

text \<open>
  \<^verbatim>\<open>libz_u/inflate.c\<close>: the decompressor as a state machine.  One record holds the fields of
  the stream and of \<open>struct inflate_state\<close>; each case of the switch of \<open>inflate\<close> is a function
  that goes on with a new state, leaves through \<open>inf_leave\<close>, or returns.  The local copies
  \<open>next\<close>, \<open>have\<close>, \<open>put\<close>, \<open>left\<close>, \<open>hold\<close> and \<open>bits\<close> are the fields they are loaded from.

  The input is the list of the \<open>avail_in\<close> bytes at \<open>next_in\<close>, and the output the list of the
  bytes the call has written before \<open>next_out\<close>; reading or writing outside them, the
  window, the tables or the arrays of the state is \<open>None\<close>.  Pointers are taken to be valid
  where the code checks for \<open>Z_NULL\<close>.  \<open>inflate_fast\<close> is in the theory \<open>Inffast\<close>.
\<close>

section \<open>The state\<close>

datatype inflate_mode =
    HEAD | FLAGS | TIME | OS | EXLEN | EXTRA | NAME | COMMENT | HCRC | DICTID | DICT | TYPE_BITS | TYPEDO
  | STORED | COPY_FIRST | COPY | TABLE | LENLENS | CODELENS | LEN_FIRST | LEN | LENEXT | DIST | DISTEXT
  | MATCH | LIT | CHECK | LENGTH_CHECK | DONE | BAD | MEM | SYNC

text \<open>\<open>mode < CHECK\<close> and \<open>mode < BAD\<close>.\<close>

definition before_check :: "inflate_mode \<Rightarrow> bool" where
  "before_check m \<longleftrightarrow> m \<notin> {CHECK, LENGTH_CHECK, DONE, BAD, MEM, SYNC}"

definition before_bad :: "inflate_mode \<Rightarrow> bool" where
  "before_bad m \<longleftrightarrow> m \<notin> {BAD, MEM, SYNC}"

definition Z_OK :: int where "Z_OK = 0"
definition Z_STREAM_END :: int where "Z_STREAM_END = 1"
definition Z_NEED_DICT :: int where "Z_NEED_DICT = 2"
definition Z_STREAM_ERROR :: int where "Z_STREAM_ERROR = -2"
definition Z_DATA_ERROR :: int where "Z_DATA_ERROR = -3"
definition Z_MEM_ERROR :: int where "Z_MEM_ERROR = -4"
definition Z_BUF_ERROR :: int where "Z_BUF_ERROR = -5"

definition Z_FINISH :: nat where "Z_FINISH = 4"
definition Z_BLOCK :: nat where "Z_BLOCK = 5"
definition Z_TREES :: nat where "Z_TREES = 6"
definition Z_DEFLATED :: nat where "Z_DEFLATED = 8"

text \<open>The header an application asks for; \<open>extra\<close>, \<open>name\<close> and \<open>comment\<close> are its memory.\<close>

record gz_header =
  gz_text :: nat
  gz_time :: nat
  gz_xflags :: nat
  gz_os :: nat
  gz_extra :: "bytes option"
  gz_extra_len :: nat
  gz_extra_max :: nat
  gz_name :: "bytes option"
  gz_name_max :: nat
  gz_comment :: "bytes option"
  gz_comm_max :: nat
  gz_hcrc :: nat
  gz_done :: int

text \<open>A pointer to a decoding table: one of the fixed tables, or an index in \<open>codes\<close>.\<close>

datatype table_ptr = Lenfix | Distfix | In_codes nat

record inf =
  next_in :: bytes          \<comment> \<open>the stream\<close>
  total_in :: u64
  out_buf :: bytes          \<comment> \<open>written by this call\<close>
  avail_out :: nat
  total_out :: u64
  msg :: "string option"
  data_kind :: nat          \<comment> \<open>\<open>data_type\<close>\<close>
  adler :: u64
  call_in :: nat            \<comment> \<open>the local \<open>in\<close> of \<open>inflate\<close>\<close>
  call_out :: nat           \<comment> \<open>the local \<open>out\<close>\<close>
  mode :: inflate_mode      \<comment> \<open>the state\<close>
  last_block :: nat         \<comment> \<open>\<open>last\<close>\<close>
  wrap :: nat
  havedict :: bool
  flags :: nat
  dmax :: nat
  check :: u64
  total :: u64
  ghead :: "gz_header option"
  wbits :: nat
  wsize :: nat
  whave :: nat
  wnext :: nat
  window :: "bytes option"
  hold :: nat
  bits :: nat
  length_f :: nat           \<comment> \<open>\<open>length\<close>\<close>
  offset :: nat
  extra :: nat
  lencode :: table_ptr
  distcode :: table_ptr
  lenbits :: nat
  distbits :: nat
  ncode :: nat
  nlen :: nat
  ndist :: nat
  have_f :: nat             \<comment> \<open>\<open>have\<close>\<close>
  next_f :: nat             \<comment> \<open>\<open>next\<close>, an index in \<open>codes\<close>\<close>
  lens :: "nat list"
  work :: "nat list"
  codes :: "code list"
  sane :: bool
  back_bits :: int
  was :: nat

text \<open>What a case of the switch does; \<open>after\<close> goes on where the code has not left.\<close>

datatype 'a flow = Go 'a | Leave inf int | Ret inf int

definition after :: "'a flow option \<Rightarrow> ('a \<Rightarrow> 'b flow option) \<Rightarrow> 'b flow option" where
  "after m f = (case m of None \<Rightarrow> None | Some (Go a) \<Rightarrow> f a | Some (Leave s r) \<Rightarrow> Some (Leave s r)
     | Some (Ret s r) \<Rightarrow> Some (Ret s r))"

definition go :: "'a \<Rightarrow> 'a flow option" where "go a = Some (Go a)"
definition leave :: "inf \<Rightarrow> 'a flow option" where "leave s = Some (Leave s Z_OK)"

text \<open>\<open>strm->msg = \<dots>; state->mode = BAD; break;\<close>\<close>

definition bad :: "string \<Rightarrow> inf \<Rightarrow> inf flow option" where
  "bad m s = go (s\<lparr>msg := Some m, mode := BAD\<rparr>)"

text \<open>Unsigned subtraction of 32 bits.\<close>

definition sub32 :: "nat \<Rightarrow> nat \<Rightarrow> nat" where
  "sub32 a b = nat ((int a - int b) mod 2 ^ 32)"

section \<open>The macros of \<open>inflate\<close>\<close>

definition pull :: "u8 \<Rightarrow> bytes \<Rightarrow> inf \<Rightarrow> inf" where
  "pull b r s = s\<lparr>next_in := r, hold := (hold s + unat b * 2 ^ bits s) mod 2 ^ 64, bits := bits s + 8\<rparr>"

definition PULLBYTE :: "inf \<Rightarrow> inf flow option" where
  "PULLBYTE s = (case next_in s of [] \<Rightarrow> leave s | b # r \<Rightarrow> go (pull b r s))"

function NEEDBITS :: "nat \<Rightarrow> inf \<Rightarrow> inf flow option" where
  "NEEDBITS n s =
    (if bits s < n then (case next_in s of [] \<Rightarrow> leave s | b # r \<Rightarrow> NEEDBITS n (pull b r s)) else go s)"
  by pat_completeness auto
termination by (relation "measure (\<lambda>(n, s). length (next_in s))") (auto simp: pull_def)

declare NEEDBITS.simps [simp del]

definition BITVAL :: "nat \<Rightarrow> inf \<Rightarrow> nat" where   \<comment> \<open>\<open>BITS(n)\<close>\<close>
  "BITVAL n s = hold s mod 2 ^ 32 mod 2 ^ n"

definition DROPBITS :: "nat \<Rightarrow> inf \<Rightarrow> inf" where
  "DROPBITS n s = s\<lparr>hold := hold s div 2 ^ n, bits := sub32 (bits s) n\<rparr>"

definition INITBITS :: "inf \<Rightarrow> inf" where
  "INITBITS s = s\<lparr>hold := 0, bits := 0\<rparr>"

definition BYTEBITS :: "inf \<Rightarrow> inf" where
  "BYTEBITS s = s\<lparr>hold := hold s div 2 ^ (bits s mod 8), bits := bits s - bits s mod 8\<rparr>"

text \<open>The checks, on the target of the repository; the CRC does not depend on the byte order or the
  alignment of the buffer (\<open>crc32_is_shift_register\<close>).\<close>

definition mips :: target where
  "mips = \<lparr>big_endian = True, sizeof_ptr = 8, sizeof_ptrdiff = 8\<rparr>"

definition crc_of :: "u64 \<Rightarrow> bytes \<Rightarrow> u64 option" where
  "crc_of c buf = crc32 mips 0 c (Some buf) (length buf)"

definition UPDATE :: "inf \<Rightarrow> u64 \<Rightarrow> bytes \<Rightarrow> u64 option" where
  "UPDATE s c buf = (if flags s \<noteq> 0 then crc_of c buf else adler32 c (Some buf) (length buf))"

definition CRC2 :: "u64 \<Rightarrow> nat \<Rightarrow> u64 option" where
  "CRC2 c w = crc_of c [word_of_nat w, word_of_nat (w div 2 ^ 8)]"

definition CRC4 :: "u64 \<Rightarrow> nat \<Rightarrow> u64 option" where
  "CRC4 c w = crc_of c [word_of_nat w, word_of_nat (w div 2 ^ 8), word_of_nat (w div 2 ^ 16), word_of_nat (w div 2 ^ 24)]"

definition swap_hold :: "nat \<Rightarrow> u64" where   \<comment> \<open>\<open>ZSWAP32(hold)\<close>\<close>
  "swap_hold h = ucast (ZSWAP32 (word_of_nat h))"

definition on_head :: "(gz_header \<Rightarrow> gz_header) \<Rightarrow> inf \<Rightarrow> inf" where
  "on_head f s = s\<lparr>ghead := map_option f (ghead s)\<rparr>"

text \<open>\<open>zmemcpy(mem + i, src, n)\<close> and the last \<open>n\<close> bytes before a pointer.\<close>

definition blit :: "'a list \<Rightarrow> nat \<Rightarrow> 'a list \<Rightarrow> nat \<Rightarrow> 'a list option" where
  "blit mem i src n =
    (if n \<le> length src \<and> i + n \<le> length mem then Some (take i mem @ take n src @ drop (i + n) mem) else None)"

definition last_bytes :: "nat \<Rightarrow> bytes \<Rightarrow> bytes option" where
  "last_bytes n buf = (if n \<le> length buf then Some (drop (length buf - n) buf) else None)"

section \<open>The headers\<close>

definition do_HEAD :: "inf \<Rightarrow> inf flow option" where
  "do_HEAD s =
    (if wrap s = 0 then go (s\<lparr>mode := TYPEDO\<rparr>)
     else after (NEEDBITS 16 s) (\<lambda>s.
       if wrap s AND 2 \<noteq> 0 \<and> hold s = 0x8b1f then
         do { c0 \<leftarrow> crc32 mips 0 0 None 0;
              c \<leftarrow> CRC2 c0 (hold s);
              go (INITBITS (s\<lparr>check := c, mode := FLAGS\<rparr>)) }
       else
         (let s = on_head (\<lambda>h. h\<lparr>gz_done := -1\<rparr>) (s\<lparr>flags := 0\<rparr>) in
          if wrap s AND 1 = 0 \<or> (BITVAL 8 s * 2 ^ 8 + hold s div 2 ^ 8) mod 31 \<noteq> 0 then
            bad ''incorrect header check'' s
          else if BITVAL 4 s \<noteq> Z_DEFLATED then bad ''unknown compression method'' s
          else
            (let s = DROPBITS 4 s; len = BITVAL 4 s + 8 in
             if wbits s \<noteq> 0 \<and> len > wbits s then bad ''invalid window size'' s
             else
               (let s = (if wbits s = 0 then s\<lparr>wbits := len\<rparr> else s) in
                do { c \<leftarrow> adler32 0 None 0;
                     go (INITBITS (s\<lparr>dmax := 2 ^ len, adler := c, check := c,
                           mode := (if hold s AND 0x200 \<noteq> 0 then DICTID else TYPE_BITS)\<rparr>)) })))))"

definition do_FLAGS :: "inf \<Rightarrow> inf flow option" where
  "do_FLAGS s = after (NEEDBITS 16 s) (\<lambda>s.
     let s = s\<lparr>flags := hold s\<rparr> in
     if flags s AND 0xff \<noteq> Z_DEFLATED then bad ''unknown compression method'' s
     else if flags s AND 0xe000 \<noteq> 0 then bad ''unknown header flags set'' s
     else
       (let s = on_head (\<lambda>h. h\<lparr>gz_text := hold s div 2 ^ 8 mod 2\<rparr>) s in
        do { c \<leftarrow> (if flags s AND 0x200 \<noteq> 0 then CRC2 (check s) (hold s) else Some (check s));
             go (INITBITS (s\<lparr>check := c, mode := TIME\<rparr>)) }))"

definition do_TIME :: "inf \<Rightarrow> inf flow option" where
  "do_TIME s = after (NEEDBITS 32 s) (\<lambda>s.
     let s = on_head (\<lambda>h. h\<lparr>gz_time := hold s\<rparr>) s in
     do { c \<leftarrow> (if flags s AND 0x200 \<noteq> 0 then CRC4 (check s) (hold s) else Some (check s));
          go (INITBITS (s\<lparr>check := c, mode := OS\<rparr>)) })"

definition do_OS :: "inf \<Rightarrow> inf flow option" where
  "do_OS s = after (NEEDBITS 16 s) (\<lambda>s.
     let s = on_head (\<lambda>h. h\<lparr>gz_xflags := hold s AND 0xff, gz_os := hold s div 2 ^ 8\<rparr>) s in
     do { c \<leftarrow> (if flags s AND 0x200 \<noteq> 0 then CRC2 (check s) (hold s) else Some (check s));
          go (INITBITS (s\<lparr>check := c, mode := EXLEN\<rparr>)) })"

definition do_EXLEN :: "inf \<Rightarrow> inf flow option" where
  "do_EXLEN s =
    (if flags s AND 0x400 \<noteq> 0 then
       after (NEEDBITS 16 s) (\<lambda>s.
         let s = on_head (\<lambda>h. h\<lparr>gz_extra_len := hold s\<rparr>) (s\<lparr>length_f := hold s\<rparr>) in
         do { c \<leftarrow> (if flags s AND 0x200 \<noteq> 0 then CRC2 (check s) (hold s) else Some (check s));
              go (INITBITS (s\<lparr>check := c, mode := EXTRA\<rparr>)) })
     else go (on_head (\<lambda>h. h\<lparr>gz_extra := None\<rparr>) s\<lparr>mode := EXTRA\<rparr>))"

text \<open>The extra bytes that are copied to the application's memory.\<close>

definition save_extra :: "nat \<Rightarrow> inf \<Rightarrow> inf option" where
  "save_extra copy s =
    (case ghead s of
       None \<Rightarrow> Some s
     | Some h \<Rightarrow>
         (case gz_extra h of
            None \<Rightarrow> Some s
          | Some mem \<Rightarrow>
              (let len = sub32 (gz_extra_len h) (length_f s);
                   n = (if (len + copy) mod 2 ^ 32 > gz_extra_max h then sub32 (gz_extra_max h) len else copy) in
               do { mem \<leftarrow> blit mem len (next_in s) n;
                    Some (s\<lparr>ghead := Some (h\<lparr>gz_extra := Some mem\<rparr>)\<rparr>) })))"

definition do_EXTRA :: "inf \<Rightarrow> inf flow option" where
  "do_EXTRA s =
    (if flags s AND 0x400 \<noteq> 0 then
       (let copy = min (length_f s) (length (next_in s)) in
        do { s \<leftarrow> (if copy \<noteq> 0 then
                     do { s \<leftarrow> save_extra copy s;
                          c \<leftarrow> (if flags s AND 0x200 \<noteq> 0 then crc_of (check s) (take copy (next_in s))
                                else Some (check s));
                          Some (s\<lparr>check := c, next_in := drop copy (next_in s), length_f := length_f s - copy\<rparr>) }
                   else Some s);
             if length_f s \<noteq> 0 then leave s else go (s\<lparr>length_f := 0, mode := NAME\<rparr>) })
     else go (s\<lparr>length_f := 0, mode := NAME\<rparr>))"

text \<open>The loop over a zero-terminated string, with the memory it is saved to if there is one: the
  bytes passed, the last one, the length saved, and the memory.\<close>

fun grab :: "bytes option \<Rightarrow> nat \<Rightarrow> nat \<Rightarrow> bytes \<Rightarrow> nat \<Rightarrow> (nat \<times> u8 \<times> nat \<times> bytes option) option" where
  "grab mem mx l [] copy = None"
| "grab mem mx l (b # r) copy =
     do { (mem, l) \<leftarrow> (case mem of
              None \<Rightarrow> Some (None, l)
            | Some m \<Rightarrow> if l < mx then do { m \<leftarrow> wr m l b; Some (Some m, l + 1) } else Some (Some m, l));
          if b \<noteq> 0 \<and> r \<noteq> [] then grab mem mx l r (copy + 1) else Some (copy + 1, b, l, mem) }"

definition pass_string :: "nat \<Rightarrow> u8 \<Rightarrow> inf \<Rightarrow> inf flow option" where
  "pass_string copy len s =
     do { c \<leftarrow> (if flags s AND 0x200 \<noteq> 0 then crc_of (check s) (take copy (next_in s)) else Some (check s));
          let s = s\<lparr>check := c, next_in := drop copy (next_in s)\<rparr>;
          if len \<noteq> 0 then leave s else go s }"

definition do_NAME :: "inf \<Rightarrow> inf flow option" where
  "do_NAME s =
    (if flags s AND 0x800 \<noteq> 0 then
       (if next_in s = [] then leave s
        else do {
          (copy, len, l, mem) \<leftarrow> grab (Option.bind (ghead s) gz_name)
             (case ghead s of None \<Rightarrow> 0 | Some h \<Rightarrow> gz_name_max h) (length_f s) (next_in s) 0;
          after (pass_string copy len (on_head (\<lambda>h. h\<lparr>gz_name := mem\<rparr>) (s\<lparr>length_f := l\<rparr>)))
            (\<lambda>s. go (s\<lparr>length_f := 0, mode := COMMENT\<rparr>)) })
     else go (on_head (\<lambda>h. h\<lparr>gz_name := None\<rparr>) s\<lparr>length_f := 0, mode := COMMENT\<rparr>))"

definition do_COMMENT :: "inf \<Rightarrow> inf flow option" where
  "do_COMMENT s =
    (if flags s AND 0x1000 \<noteq> 0 then
       (if next_in s = [] then leave s
        else do {
          (copy, len, l, mem) \<leftarrow> grab (Option.bind (ghead s) gz_comment)
             (case ghead s of None \<Rightarrow> 0 | Some h \<Rightarrow> gz_comm_max h) (length_f s) (next_in s) 0;
          after (pass_string copy len (on_head (\<lambda>h. h\<lparr>gz_comment := mem\<rparr>) (s\<lparr>length_f := l\<rparr>)))
            (\<lambda>s. go (s\<lparr>mode := HCRC\<rparr>)) })
     else go (on_head (\<lambda>h. h\<lparr>gz_comment := None\<rparr>) s\<lparr>mode := HCRC\<rparr>))"

definition do_HCRC :: "inf \<Rightarrow> inf flow option" where
  "do_HCRC s =
    after (if flags s AND 0x200 \<noteq> 0 then
             after (NEEDBITS 16 s) (\<lambda>s.
               if word_of_nat (hold s) \<noteq> check s AND 0xffff then bad ''header crc mismatch'' s
               else go (INITBITS s))
           else go s) (\<lambda>s.
      if mode s = BAD then go s
      else
        (let s = on_head (\<lambda>h. h\<lparr>gz_hcrc := flags s div 2 ^ 9 mod 2, gz_done := 1\<rparr>) s in
         do { c \<leftarrow> crc32 mips 0 0 None 0; go (s\<lparr>adler := c, check := c, mode := TYPE_BITS\<rparr>) }))"

definition do_DICTID :: "inf \<Rightarrow> inf flow option" where
  "do_DICTID s = after (NEEDBITS 32 s) (\<lambda>s.
     go (INITBITS (s\<lparr>adler := swap_hold (hold s), check := swap_hold (hold s), mode := DICT\<rparr>)))"

definition do_DICT :: "inf \<Rightarrow> inf flow option" where
  "do_DICT s =
    (if \<not> havedict s then Some (Ret s Z_NEED_DICT)
     else do { c \<leftarrow> adler32 0 None 0; go (s\<lparr>adler := c, check := c, mode := TYPE_BITS\<rparr>) })"

section \<open>Blocks\<close>

definition fixedtables :: "inf \<Rightarrow> inf" where
  "fixedtables s = s\<lparr>lencode := Lenfix, lenbits := 9, distcode := Distfix, distbits := 5\<rparr>"

definition do_TYPEDO :: "nat \<Rightarrow> inf \<Rightarrow> inf flow option" where
  "do_TYPEDO flush s =
    (if last_block s \<noteq> 0 then go ((BYTEBITS s)\<lparr>mode := CHECK\<rparr>)
     else after (NEEDBITS 3 s) (\<lambda>s.
       let s = DROPBITS 1 (s\<lparr>last_block := BITVAL 1 s\<rparr>); t = BITVAL 2 s in
       if t = 0 then go (DROPBITS 2 (s\<lparr>mode := STORED\<rparr>))
       else if t = 1 then
         (let s = (fixedtables s)\<lparr>mode := LEN_FIRST\<rparr> in
          if flush = Z_TREES then leave (DROPBITS 2 s) else go (DROPBITS 2 s))
       else if t = 2 then go (DROPBITS 2 (s\<lparr>mode := TABLE\<rparr>))
       else go (DROPBITS 2 (s\<lparr>msg := Some ''invalid block type'', mode := BAD\<rparr>))))"

text \<open>The case \<open>TYPE\<close> falls through to \<open>TYPEDO\<close> without setting the mode.\<close>

definition do_TYPE :: "nat \<Rightarrow> inf \<Rightarrow> inf flow option" where
  "do_TYPE flush s = (if flush = Z_BLOCK \<or> flush = Z_TREES then leave s else do_TYPEDO flush s)"

definition do_STORED :: "nat \<Rightarrow> inf \<Rightarrow> inf flow option" where
  "do_STORED flush s = after (NEEDBITS 32 (BYTEBITS s)) (\<lambda>s.
     if hold s AND 0xffff \<noteq> (hold s div 2 ^ 16) XOR 0xffff then bad ''invalid stored block lengths'' s
     else
       (let s = INITBITS (s\<lparr>length_f := hold s AND 0xffff, mode := COPY_FIRST\<rparr>) in
        if flush = Z_TREES then leave s else go s))"

definition do_COPY_FIRST :: "inf \<Rightarrow> inf flow option" where
  "do_COPY_FIRST s = go (s\<lparr>mode := COPY\<rparr>)"

definition do_COPY :: "inf \<Rightarrow> inf flow option" where
  "do_COPY s =
    (if length_f s \<noteq> 0 then
       (let copy = min (min (length_f s) (length (next_in s))) (avail_out s) in
        if copy = 0 then leave s
        else go (s\<lparr>out_buf := out_buf s @ take copy (next_in s), next_in := drop copy (next_in s),
               avail_out := avail_out s - copy, length_f := length_f s - copy\<rparr>))
     else go (s\<lparr>mode := TYPE_BITS\<rparr>))"

section \<open>The tables of a dynamic block\<close>

definition do_TABLE :: "inf \<Rightarrow> inf flow option" where
  "do_TABLE s = after (NEEDBITS 14 s) (\<lambda>s.
     let s = DROPBITS 5 (s\<lparr>nlen := BITVAL 5 s + 257\<rparr>);
         s = DROPBITS 5 (s\<lparr>ndist := BITVAL 5 s + 1\<rparr>);
         s = DROPBITS 4 (s\<lparr>ncode := BITVAL 4 s + 4\<rparr>) in
     if nlen s > 286 \<or> ndist s > 30 then bad ''too many length or distance symbols'' s
     else go (s\<lparr>have_f := 0, mode := LENLENS\<rparr>))"

definition order :: "nat list" where
  "order = [16, 17, 18, 0, 8, 7, 9, 6, 10, 5, 11, 4, 12, 3, 13, 2, 14, 1, 15]"

text \<open>\<open>state->lens[order[state->have++]] = v;\<close>\<close>

definition put_lenlen :: "nat \<Rightarrow> inf \<Rightarrow> inf option" where
  "put_lenlen v s =
     do { i \<leftarrow> rd order (have_f s); l \<leftarrow> wr (lens s) i v; Some (s\<lparr>lens := l, have_f := have_f s + 1\<rparr>) }"

text \<open>The loop up to \<open>ncode\<close> and the one up to 19; \<open>todo\<close> is what is left.\<close>

fun read_lenlens :: "nat \<Rightarrow> inf \<Rightarrow> inf flow option" where
  "read_lenlens 0 s = go s"
| "read_lenlens (Suc todo) s = after (NEEDBITS 3 s) (\<lambda>s.
     do { s \<leftarrow> put_lenlen (BITVAL 3 s) s; read_lenlens todo (DROPBITS 3 s) })"

fun zero_lenlens :: "nat \<Rightarrow> inf \<Rightarrow> inf option" where
  "zero_lenlens 0 s = Some s"
| "zero_lenlens (Suc todo) s = do { s \<leftarrow> put_lenlen 0 s; zero_lenlens todo s }"

text \<open>\<open>inflate_table(type, lens, n, &next, &bits, work)\<close>: 0 and the tables and the root bits, or not
  0.  What it leaves in \<open>work\<close> is not used again.\<close>

definition call_inflate_table :: "codetype \<Rightarrow> nat list \<Rightarrow> nat \<Rightarrow> nat \<Rightarrow> inf \<Rightarrow> (nat option \<times> inf) option" where
  "call_inflate_table type ls n request s =
     do { r \<leftarrow> inflate_table type ls n (drop (next_f s) (codes s)) request (work s);
          case r of
            Built tab used root \<Rightarrow>
              Some (Some root, s\<lparr>codes := take (next_f s) (codes s) @ tab, next_f := next_f s + used\<rparr>)
          | _ \<Rightarrow> Some (None, s) }"

definition do_LENLENS :: "inf \<Rightarrow> inf flow option" where
  "do_LENLENS s = after (read_lenlens (ncode s - have_f s) s) (\<lambda>s.
     do { s \<leftarrow> zero_lenlens (19 - have_f s) s;
          let s = s\<lparr>next_f := 0, lencode := In_codes 0, lenbits := 7\<rparr>;
          (root, s) \<leftarrow> call_inflate_table CODES (lens s) 19 7 s;
          case root of
            None \<Rightarrow> bad ''invalid code lengths set'' s
          | Some root \<Rightarrow> go (s\<lparr>lenbits := root, have_f := 0, mode := CODELENS\<rparr>) })"

definition table_entry :: "inf \<Rightarrow> table_ptr \<Rightarrow> nat \<Rightarrow> code option" where
  "table_entry s p i = (case p of Lenfix \<Rightarrow> rd lenfix i | Distfix \<Rightarrow> rd distfix i | In_codes b \<Rightarrow> rd (codes s) (b + i))"

text \<open>\<open>for (;;) { here = table[BITS(root)]; if (here.bits <= bits) break; PULLBYTE(); }\<close>\<close>

function find_code :: "table_ptr \<Rightarrow> nat \<Rightarrow> inf \<Rightarrow> (code \<times> inf) flow option" where
  "find_code p root s =
     do { here \<leftarrow> table_entry s p (BITVAL root s);
          if c_bits here \<le> bits s then go (here, s)
          else (case next_in s of [] \<Rightarrow> leave s | b # r \<Rightarrow> find_code p root (pull b r s)) }"
  by pat_completeness auto
termination by (relation "measure (\<lambda>(p, root, s). length (next_in s))") (auto simp: pull_def)

declare find_code.simps [simp del]

text \<open>The same for the second level of a table, from the entry \<open>last\<close>.\<close>

function find_sub :: "table_ptr \<Rightarrow> code \<Rightarrow> inf \<Rightarrow> (code \<times> inf) flow option" where
  "find_sub p lst s =
     do { here \<leftarrow> table_entry s p (c_val lst + BITVAL (c_bits lst + c_op lst) s div 2 ^ c_bits lst);
          if c_bits lst + c_bits here \<le> bits s then go (here, s)
          else (case next_in s of [] \<Rightarrow> leave s | b # r \<Rightarrow> find_sub p lst (pull b r s)) }"
  by pat_completeness auto
termination by (relation "measure (\<lambda>(p, lst, s). length (next_in s))") (auto simp: pull_def)

declare find_sub.simps [simp del]

text \<open>\<open>while (copy--) state->lens[state->have++] = len;\<close>\<close>

fun put_lens :: "nat \<Rightarrow> nat \<Rightarrow> inf \<Rightarrow> inf option" where
  "put_lens 0 len s = Some s"
| "put_lens (Suc copy) len s =
     do { l \<leftarrow> wr (lens s) (have_f s) len; put_lens copy len (s\<lparr>lens := l, have_f := have_f s + 1\<rparr>) }"

definition repeat_lens :: "nat \<Rightarrow> nat \<Rightarrow> inf \<Rightarrow> inf flow option" where
  "repeat_lens copy len s =
    (if have_f s + copy > nlen s + ndist s then bad ''invalid bit length repeat'' s
     else do { s \<leftarrow> put_lens copy len s; go s })"

definition read_codelen :: "inf \<Rightarrow> inf flow option" where
  "read_codelen s = after (find_code (lencode s) (lenbits s) s) (\<lambda>(here, s).
     if c_val here < 16 then
       do { s \<leftarrow> put_lens 1 (c_val here) (DROPBITS (c_bits here) s); go s }
     else if c_val here = 16 then
       after (NEEDBITS (c_bits here + 2) s) (\<lambda>s.
         let s = DROPBITS (c_bits here) s in
         if have_f s = 0 then bad ''invalid bit length repeat'' s
         else do { len \<leftarrow> rd (lens s) (have_f s - 1);
                   repeat_lens (3 + BITVAL 2 s) len (DROPBITS 2 s) })
     else if c_val here = 17 then
       after (NEEDBITS (c_bits here + 3) s) (\<lambda>s.
         let s = DROPBITS (c_bits here) s in repeat_lens (3 + BITVAL 3 s) 0 (DROPBITS 3 s))
     else
       after (NEEDBITS (c_bits here + 7) s) (\<lambda>s.
         let s = DROPBITS (c_bits here) s in repeat_lens (11 + BITVAL 7 s) 0 (DROPBITS 7 s)))"

text \<open>Each turn raises \<open>have\<close> or ends the loop, so that \<open>todo = nlen + ndist - have\<close> turns are enough.\<close>

fun read_codelens :: "nat \<Rightarrow> inf \<Rightarrow> inf flow option" where
  "read_codelens 0 s = (if have_f s < nlen s + ndist s then None else go s)"
| "read_codelens (Suc todo) s =
    (if have_f s < nlen s + ndist s then
       after (read_codelen s) (\<lambda>s. if mode s = BAD then go s else read_codelens todo s)
     else go s)"

definition do_CODELENS :: "nat \<Rightarrow> inf \<Rightarrow> inf flow option" where
  "do_CODELENS flush s = after (read_codelens (nlen s + ndist s - have_f s) s) (\<lambda>s.
     if mode s = BAD then go s
     else do {
       l256 \<leftarrow> rd (lens s) 256;
       if l256 = 0 then bad ''invalid code -- missing end-of-block'' s
       else do {
         let s = s\<lparr>next_f := 0, lencode := In_codes 0, lenbits := 9\<rparr>;
         (root, s) \<leftarrow> call_inflate_table LENS (lens s) (nlen s) 9 s;
         case root of
           None \<Rightarrow> bad ''invalid literal/lengths set'' s
         | Some root \<Rightarrow> do {
             let s = s\<lparr>lenbits := root, distcode := In_codes (next_f s), distbits := 6\<rparr>;
             (root, s) \<leftarrow> call_inflate_table DISTS (drop (nlen s) (lens s)) (ndist s) 6 s;
             case root of
               None \<Rightarrow> bad ''invalid distances set'' s
             | Some root \<Rightarrow>
                 (let s = s\<lparr>distbits := root, mode := LEN_FIRST\<rparr> in
                  if flush = Z_TREES then leave s else go s) } } })"

section \<open>Literals and matches\<close>

definition do_LEN_FIRST :: "inf \<Rightarrow> inf flow option" where
  "do_LEN_FIRST s = go (s\<lparr>mode := LEN\<rparr>)"

text \<open>A code that may be in a second table: its entry, the bits taken from the input.\<close>

definition take_code :: "table_ptr \<Rightarrow> nat \<Rightarrow> bool \<Rightarrow> inf \<Rightarrow> (code \<times> inf) flow option" where
  "take_code p root zero_ok s = after (find_code p root s) (\<lambda>(here, s).
     if (zero_ok \<or> c_op here \<noteq> 0) \<and> c_op here AND 0xf0 = 0 then
       after (find_sub p here s) (\<lambda>(sub, s).
         let s = DROPBITS (c_bits here) s;
             s = s\<lparr>back_bits := back_bits s + int (c_bits here)\<rparr>;
             s = DROPBITS (c_bits sub) s in
         go (sub, s\<lparr>back_bits := back_bits s + int (c_bits sub)\<rparr>))
     else
       (let s = DROPBITS (c_bits here) s in go (here, s\<lparr>back_bits := back_bits s + int (c_bits here)\<rparr>)))"

text \<open>The case \<open>LEN\<close> when \<open>inflate_fast\<close> is not called.\<close>

definition slow_LEN :: "inf \<Rightarrow> inf flow option" where
  "slow_LEN s = after (take_code (lencode s) (lenbits s) False (s\<lparr>back_bits := 0\<rparr>)) (\<lambda>(here, s).
     let s = s\<lparr>length_f := c_val here\<rparr> in
     if c_op here = 0 then go (s\<lparr>mode := LIT\<rparr>)
     else if c_op here AND 32 \<noteq> 0 then go (s\<lparr>back_bits := -1, mode := TYPE_BITS\<rparr>)
     else if c_op here AND 64 \<noteq> 0 then bad ''invalid literal/length code'' s
     else go (s\<lparr>extra := c_op here AND 15, mode := LENEXT\<rparr>))"

definition do_LENEXT :: "inf \<Rightarrow> inf flow option" where
  "do_LENEXT s =
    after (if extra s \<noteq> 0 then
             after (NEEDBITS (extra s) s) (\<lambda>s.
               let s = DROPBITS (extra s) (s\<lparr>length_f := length_f s + BITVAL (extra s) s\<rparr>) in
               go (s\<lparr>back_bits := back_bits s + int (extra s)\<rparr>))
           else go s) (\<lambda>s. go (s\<lparr>was := length_f s, mode := DIST\<rparr>))"

definition do_DIST :: "inf \<Rightarrow> inf flow option" where
  "do_DIST s = after (take_code (distcode s) (distbits s) True s) (\<lambda>(here, s).
     if c_op here AND 64 \<noteq> 0 then bad ''invalid distance code'' s
     else go (s\<lparr>offset := c_val here, extra := c_op here AND 15, mode := DISTEXT\<rparr>))"

definition do_DISTEXT :: "inf \<Rightarrow> inf flow option" where
  "do_DISTEXT s =
    after (if extra s \<noteq> 0 then
             after (NEEDBITS (extra s) s) (\<lambda>s.
               let s = DROPBITS (extra s) (s\<lparr>offset := offset s + BITVAL (extra s) s\<rparr>) in
               go (s\<lparr>back_bits := back_bits s + int (extra s)\<rparr>))
           else go s) (\<lambda>s. go (s\<lparr>mode := MATCH\<rparr>))"

text \<open>\<open>from\<close>: a pointer into the window or into the output.  \<open>n\<close> times \<open>*put++ = *from++\<close>.\<close>

datatype from_ptr = In_window nat | In_out nat

fun from_byte :: "bytes option \<Rightarrow> from_ptr \<Rightarrow> bytes \<Rightarrow> (u8 \<times> from_ptr) option" where
  "from_byte w (In_window i) out = do { m \<leftarrow> w; b \<leftarrow> rd m i; Some (b, In_window (i + 1)) }"
| "from_byte w (In_out i) out = do { b \<leftarrow> rd out i; Some (b, In_out (i + 1)) }"

fun copy_from :: "bytes option \<Rightarrow> from_ptr \<Rightarrow> nat \<Rightarrow> bytes \<Rightarrow> (from_ptr \<times> bytes) option" where
  "copy_from w p 0 out = Some (p, out)"
| "copy_from w p (Suc n) out = do { (b, p) \<leftarrow> from_byte w p out; copy_from w p n (out @ [b]) }"

text \<open>The pointer and the number of bytes that can be copied from it, or nothing if the distance is
  too far.\<close>

definition match_from :: "inf \<Rightarrow> (from_ptr \<times> nat) option option" where
  "match_from s =
    (let copy = sub32 (call_out s) (avail_out s) in
     if offset s > copy then
       (let copy = offset s - copy in
        if copy > whave s \<and> sane s then Some None
        else if copy > wnext s then
          (if wsize s < copy - wnext s then None
           else Some (Some (In_window (wsize s - (copy - wnext s)), min (copy - wnext s) (length_f s))))
        else Some (Some (In_window (wnext s - copy), min copy (length_f s))))
     else if offset s > length (out_buf s) then None
     else Some (Some (In_out (length (out_buf s) - offset s), length_f s)))"

text \<open>The loop is \<open>do { \<dots> } while (--copy)\<close>, which for 0 runs \<open>2 ^ 32\<close> times.\<close>

definition do_MATCH :: "inf \<Rightarrow> inf flow option" where
  "do_MATCH s =
    (if avail_out s = 0 then leave s
     else do {
       m \<leftarrow> match_from s;
       case m of
         None \<Rightarrow> bad ''invalid distance too far back'' s
       | Some (p, copy) \<Rightarrow>
           (let copy = min copy (avail_out s) in
            if copy = 0 then None
            else do {
              (_, out) \<leftarrow> copy_from (window s) p copy (out_buf s);
              let s = s\<lparr>out_buf := out, avail_out := avail_out s - copy, length_f := length_f s - copy\<rparr>;
              go (if length_f s = 0 then s\<lparr>mode := LEN\<rparr> else s) }) })"

definition do_LIT :: "inf \<Rightarrow> inf flow option" where
  "do_LIT s =
    (if avail_out s = 0 then leave s
     else go (s\<lparr>out_buf := out_buf s @ [word_of_nat (length_f s)], avail_out := avail_out s - 1, mode := LEN\<rparr>))"

section \<open>The trailer\<close>

definition do_CHECK :: "inf \<Rightarrow> inf flow option" where
  "do_CHECK s =
    after (if wrap s \<noteq> 0 then
             after (NEEDBITS 32 s) (\<lambda>s.
               let out = sub32 (call_out s) (avail_out s);
                   s = s\<lparr>total_out := total_out s + word_of_nat out, total := total s + word_of_nat out\<rparr> in
               do { s \<leftarrow> (if out \<noteq> 0 then
                            do { buf \<leftarrow> last_bytes out (out_buf s);
                                 c \<leftarrow> UPDATE s (check s) buf;
                                 Some (s\<lparr>adler := c, check := c\<rparr>) }
                          else Some s);
                    let s = s\<lparr>call_out := avail_out s\<rparr>;
                    if (if flags s \<noteq> 0 then word_of_nat (hold s) else swap_hold (hold s)) \<noteq> check s then
                      bad ''incorrect data check'' s
                    else go (INITBITS s) })
           else go s) (\<lambda>s. if mode s = BAD then go s else go (s\<lparr>mode := LENGTH_CHECK\<rparr>))"

definition do_LENGTH :: "inf \<Rightarrow> inf flow option" where
  "do_LENGTH s =
    after (if wrap s \<noteq> 0 \<and> flags s \<noteq> 0 then
             after (NEEDBITS 32 s) (\<lambda>s.
               if word_of_nat (hold s) \<noteq> total s AND 0xffffffff then bad ''incorrect length check'' s
               else go (INITBITS s))
           else go s) (\<lambda>s. if mode s = BAD then go s else go (s\<lparr>mode := DONE\<rparr>))"

end
