(* ===== verification/Inffast.thy ===== *)
theory Inffast imports Inflate_Modes begin

text \<open>
  \<^verbatim>\<open>libz_u/inffast.c\<close>: the fast loop over literals and matches, run while at least six bytes of
  input and 258 bytes of output space are left.  The input pointer \<open>in\<close> is an index in the
  input, since the code moves it back over the bytes it has not used.
\<close>

section \<open>The local variables\<close>

record fast =
  f_in :: nat           \<comment> \<open>bytes of the input passed\<close>
  f_out :: bytes        \<comment> \<open>written by this call of \<open>inflate\<close>\<close>
  f_left :: nat         \<comment> \<open>room left in the output\<close>
  f_hold :: nat
  f_bits :: nat

text \<open>How the loop goes on: another turn, or the mode set with its message.\<close>

datatype fast_end = More | Block_end | Fast_bad string

text \<open>\<open>hold += (unsigned long)(PUP(in)) << bits; bits += 8;\<close>\<close>

definition fast_pull :: "inf \<Rightarrow> fast \<Rightarrow> fast option" where
  "fast_pull s f =
     do { b \<leftarrow> rd (next_in s) (f_in f);
          Some (f\<lparr>f_in := f_in f + 1, f_hold := (f_hold f + unat b * 2 ^ f_bits f) mod 2 ^ 64,
                f_bits := f_bits f + 8\<rparr>) }"

definition fast_drop :: "nat \<Rightarrow> fast \<Rightarrow> fast" where
  "fast_drop n f = f\<lparr>f_hold := f_hold f div 2 ^ n, f_bits := sub32 (f_bits f) n\<rparr>"

definition fast_two :: "inf \<Rightarrow> fast \<Rightarrow> fast option" where
  "fast_two s f = (if f_bits f < 15 then do { f \<leftarrow> fast_pull s f; fast_pull s f } else Some f)"

text \<open>\<open>PUP(out) = b;\<close>\<close>

definition fast_put :: "u8 \<Rightarrow> fast \<Rightarrow> fast option" where
  "fast_put b f = (if f_left f = 0 then None else Some (f\<lparr>f_out := f_out f @ [b], f_left := f_left f - 1\<rparr>))"

section \<open>Codes\<close>

text \<open>From \<open>dolen\<close> (\<open>dodist\<close>) on: follow the entries that lead to a second table.  An entry
  that led back to itself would be followed for ever, which is \<open>None\<close>.\<close>

definition len_stop :: "nat \<Rightarrow> bool" where
  "len_stop oper \<longleftrightarrow> oper = 0 \<or> oper AND 16 \<noteq> 0 \<or> oper AND 64 \<noteq> 0"

definition dist_stop :: "nat \<Rightarrow> bool" where
  "dist_stop oper \<longleftrightarrow> oper AND 16 \<noteq> 0 \<or> oper AND 64 \<noteq> 0"

partial_function (option) fast_code ::
    "(nat \<Rightarrow> bool) \<Rightarrow> inf \<Rightarrow> table_ptr \<Rightarrow> code \<Rightarrow> fast \<Rightarrow> (code \<times> fast) option" where
  "fast_code stop s p here f =
    (if stop (c_op here) then Some (here, fast_drop (c_bits here) f)
     else Option.bind (table_entry s p (c_val here + f_hold (fast_drop (c_bits here) f) mod 2 ^ c_op here))
       (\<lambda>sub. fast_code stop s p sub (fast_drop (c_bits here) f)))"

declare fast_code.simps [code]

section \<open>Copying a match\<close>

text \<open>\<open>PUP(out) = PUP(from);\<close> once and \<open>n\<close> times.\<close>

definition fast_copy1 :: "inf \<Rightarrow> from_ptr \<Rightarrow> fast \<Rightarrow> (from_ptr \<times> fast) option" where
  "fast_copy1 s p f = do { (b, p) \<leftarrow> from_byte (window s) p (f_out f); f \<leftarrow> fast_put b f; Some (p, f) }"

fun fast_copy :: "inf \<Rightarrow> nat \<Rightarrow> from_ptr \<Rightarrow> fast \<Rightarrow> (from_ptr \<times> fast) option" where
  "fast_copy s 0 p f = Some (p, f)"
| "fast_copy s (Suc n) p f = do { (p, f) \<leftarrow> fast_copy1 s p f; fast_copy s n p f }"

text \<open>\<open>if (len) { copy one; if (len > 1) copy one; }\<close>\<close>

definition copy_last :: "inf \<Rightarrow> nat \<Rightarrow> from_ptr \<Rightarrow> fast \<Rightarrow> fast option" where
  "copy_last s len p f =
    (if len \<noteq> 0 then
       do { (p, f) \<leftarrow> fast_copy1 s p f;
            if len > 1 then do { (p, f) \<leftarrow> fast_copy1 s p f; Some f } else Some f }
     else Some f)"

text \<open>\<open>while (len > 2) { copy three; len -= 3; }\<close> and the rest.\<close>

function copy_threes :: "inf \<Rightarrow> nat \<Rightarrow> from_ptr \<Rightarrow> fast \<Rightarrow> fast option" where
  "copy_threes s len p f =
    (if len > 2 then do { (p, f) \<leftarrow> fast_copy s 3 p f; copy_threes s (len - 3) p f }
     else copy_last s len p f)"
  by pat_completeness auto
termination by (relation "measure (\<lambda>(s, len, p, f). len)") auto

declare copy_threes.simps [simp del]

text \<open>\<open>do { copy three; len -= 3; } while (len > 2);\<close> and the rest; below 3 the length wraps.\<close>

definition copy_do_threes :: "inf \<Rightarrow> nat \<Rightarrow> from_ptr \<Rightarrow> fast \<Rightarrow> fast option" where
  "copy_do_threes s len p f = do { (p, f) \<leftarrow> fast_copy s 3 p f; copy_threes s (sub32 len 3) p f }"

text \<open>\<open>if (op < len) { len -= op; copy op bytes; from = out - dist; }\<close>; a loop of 0 turns
  would run \<open>2 ^ 32\<close> times.\<close>

definition back_in_out :: "nat \<Rightarrow> fast \<Rightarrow> from_ptr option" where
  "back_in_out dist f = (if dist \<le> length (f_out f) then Some (In_out (length (f_out f) - dist)) else None)"

definition some_from_window ::
    "inf \<Rightarrow> nat \<Rightarrow> nat \<Rightarrow> nat \<Rightarrow> nat \<Rightarrow> fast \<Rightarrow> (nat \<times> from_ptr \<times> fast) option" where
  "some_from_window s oper i dist len f =
    (if oper < len then
       (if oper = 0 then None
        else do { (_, f) \<leftarrow> fast_copy s oper (In_window i) f;
                  p \<leftarrow> back_in_out dist f;
                  Some (len - oper, p, f) })
     else Some (len, In_window i, f))"

text \<open>A match that starts in the window, \<open>oper\<close> bytes back in it.\<close>

definition from_window :: "inf \<Rightarrow> nat \<Rightarrow> nat \<Rightarrow> nat \<Rightarrow> fast \<Rightarrow> (nat \<times> from_ptr \<times> fast) option" where
  "from_window s oper dist len f =
    (if wnext s = 0 then
       (if wsize s < oper then None else some_from_window s oper (wsize s - oper) dist len f)
     else if wnext s < oper then
       (if wsize s + wnext s < oper then None
        else
          (let i = wsize s + wnext s - oper; oper = oper - wnext s in
           if oper < len then
             do { (_, f) \<leftarrow> fast_copy s oper (In_window i) f;
                  if wnext s < len - oper then
                    do { (_, f) \<leftarrow> fast_copy s (wnext s) (In_window 0) f;
                         p \<leftarrow> back_in_out dist f;
                         Some (len - oper - wnext s, p, f) }
                  else Some (len - oper, In_window 0, f) }
           else Some (len, In_window i, f)))
     else some_from_window s oper (wnext s - oper) dist len f)"

definition fast_match :: "inf \<Rightarrow> nat \<Rightarrow> nat \<Rightarrow> nat \<Rightarrow> fast \<Rightarrow> (fast_end \<times> fast) option" where
  "fast_match s start dist len f =
    (let beyond = length (f_out f) - length (out_buf s) + sub32 start (avail_out s) in   \<comment> \<open>\<open>out - beg\<close>\<close>
     if dist > beyond then
       (let oper = dist - beyond in
        if oper > whave s \<and> sane s then Some (Fast_bad ''invalid distance too far back'', f)
        else do { (len, p, f) \<leftarrow> from_window s oper dist len f;
                  f \<leftarrow> copy_threes s len p f;
                  Some (More, f) })
     else do { p \<leftarrow> back_in_out dist f; f \<leftarrow> copy_do_threes s len p f; Some (More, f) })"

section \<open>The loop\<close>

text \<open>The extra bits of a length, and those of a distance.\<close>

definition fast_len_extra :: "inf \<Rightarrow> code \<Rightarrow> fast \<Rightarrow> (nat \<times> fast) option" where
  "fast_len_extra s here f =
    (let oper = c_op here AND 15 in
     if oper \<noteq> 0 then
       do { f \<leftarrow> (if f_bits f < oper then fast_pull s f else Some f);
            Some (c_val here + f_hold f mod 2 ^ 32 mod 2 ^ oper, fast_drop oper f) }
     else Some (c_val here, f))"

definition fast_dist_extra :: "inf \<Rightarrow> code \<Rightarrow> fast \<Rightarrow> (nat \<times> fast) option" where
  "fast_dist_extra s here f =
    (let oper = c_op here AND 15 in
     do { f \<leftarrow> (if f_bits f < oper then
                 do { f \<leftarrow> fast_pull s f; if f_bits f < oper then fast_pull s f else Some f }
               else Some f);
          Some (c_val here + f_hold f mod 2 ^ 32 mod 2 ^ oper, fast_drop oper f) })"

text \<open>One turn of the loop.\<close>

definition fast_turn :: "inf \<Rightarrow> nat \<Rightarrow> fast \<Rightarrow> (fast_end \<times> fast) option" where
  "fast_turn s start f =
     do { f \<leftarrow> fast_two s f;
          here \<leftarrow> table_entry s (lencode s) (f_hold f mod 2 ^ lenbits s);
          (here, f) \<leftarrow> fast_code len_stop s (lencode s) here f;
          if c_op here = 0 then do { f \<leftarrow> fast_put (word_of_nat (c_val here)) f; Some (More, f) }
          else if c_op here AND 16 \<noteq> 0 then
            do { (len, f) \<leftarrow> fast_len_extra s here f;
                 f \<leftarrow> fast_two s f;
                 here \<leftarrow> table_entry s (distcode s) (f_hold f mod 2 ^ distbits s);
                 (here, f) \<leftarrow> fast_code dist_stop s (distcode s) here f;
                 if c_op here AND 16 \<noteq> 0 then
                   do { (dist, f) \<leftarrow> fast_dist_extra s here f; fast_match s start dist len f }
                 else Some (Fast_bad ''invalid distance code'', f) }
          else if c_op here AND 32 \<noteq> 0 then Some (Block_end, f)
          else Some (Fast_bad ''invalid literal/length code'', f) }"

text \<open>\<open>do { \<dots> } while (in < last && out < end);\<close>\<close>

partial_function (option) fast_loop :: "inf \<Rightarrow> nat \<Rightarrow> fast \<Rightarrow> (fast_end \<times> fast) option" where
  "fast_loop s start f =
     Option.bind (fast_turn s start f)
       (\<lambda>(e, f). if e = More \<and> f_in f < length (next_in s) - 5 \<and>
                    length (f_out f) < length (out_buf s) + (avail_out s - 257)
                 then fast_loop s start f else Some (e, f))"

declare fast_loop.simps [code]

text \<open>The unused bytes are given back.\<close>

definition give_back :: "fast \<Rightarrow> fast" where
  "give_back f =
    (let len = f_bits f div 8; b = f_bits f - 8 * len in
     f\<lparr>f_in := f_in f - len, f_bits := b, f_hold := f_hold f mod 2 ^ b\<rparr>)"

definition inflate_fast :: "inf \<Rightarrow> nat \<Rightarrow> inf option" where
  "inflate_fast s start =
     do { (e, f) \<leftarrow> fast_loop s start
            \<lparr>f_in = 0, f_out = out_buf s, f_left = avail_out s, f_hold = hold s, f_bits = bits s\<rparr>;
          let s = (case e of More \<Rightarrow> s | Block_end \<Rightarrow> s\<lparr>mode := TYPE_BITS\<rparr> | Fast_bad m \<Rightarrow> s\<lparr>msg := Some m, mode := BAD\<rparr>);
          if f_in f < f_bits f div 8 then None
          else
            (let f = give_back f in
             Some (s\<lparr>next_in := drop (f_in f) (next_in s), out_buf := f_out f, avail_out := f_left f,
                   hold := f_hold f, bits := f_bits f\<rparr>)) }"

end
