(* ===== verification/Inflate.thy ===== *)
theory Inflate imports Inffast begin

text \<open>
  \<^verbatim>\<open>libz_u/inflate.c\<close>: \<open>inflate\<close> itself, which runs the cases of the theory \<open>Inflate_Modes\<close>
  until one of them leaves, and the other entry points.  A call of the allocator is a
  parameter: the memory it returns, or nothing.
\<close>

section \<open>The window\<close>

text \<open>\<open>updatewindow\<close>, given the bytes before \<open>end\<close>: true if there is no memory.\<close>

definition new_window :: "(nat \<Rightarrow> bytes option) \<Rightarrow> inf \<Rightarrow> inf option" where
  "new_window zalloc s =
    (case window s of
       Some _ \<Rightarrow> Some s
     | None \<Rightarrow> (case zalloc (2 ^ wbits s) of None \<Rightarrow> None | Some m \<Rightarrow> Some (s\<lparr>window := Some m\<rparr>)))"

definition fill_window :: "bytes \<Rightarrow> nat \<Rightarrow> inf \<Rightarrow> inf option" where
  "fill_window buf copy s =
     do { w \<leftarrow> window s;
          if copy \<ge> wsize s then
            do { src \<leftarrow> last_bytes (wsize s) buf;
                 w \<leftarrow> blit w 0 src (wsize s);
                 Some (s\<lparr>window := Some w, wnext := 0, whave := wsize s\<rparr>) }
          else
            do { let dist = min (sub32 (wsize s) (wnext s)) copy;
                 src \<leftarrow> last_bytes copy buf;
                 w \<leftarrow> blit w (wnext s) src dist;
                 let copy = copy - dist;
                 if copy \<noteq> 0 then
                   do { src \<leftarrow> last_bytes copy buf;
                        w \<leftarrow> blit w 0 src copy;
                        Some (s\<lparr>window := Some w, wnext := copy, whave := wsize s\<rparr>) }
                 else
                   (let n = wnext s + dist in
                    Some (s\<lparr>window := Some w, wnext := (if n = wsize s then 0 else n),
                          whave := (if whave s < wsize s then whave s + dist else whave s)\<rparr>)) } }"

definition updatewindow :: "(nat \<Rightarrow> bytes option) \<Rightarrow> bytes \<Rightarrow> nat \<Rightarrow> inf \<Rightarrow> (bool \<times> inf) option" where
  "updatewindow zalloc buf copy s =
    (case new_window zalloc s of
       None \<Rightarrow> Some (True, s)
     | Some s \<Rightarrow>
         (let s = (if wsize s = 0 then s\<lparr>wsize := 2 ^ wbits s, wnext := 0, whave := 0\<rparr> else s) in
          do { s \<leftarrow> fill_window buf copy s; Some (False, s) }))"

section \<open>\<open>inflate\<close>\<close>

definition do_LEN :: "inf \<Rightarrow> inf flow option" where
  "do_LEN s =
    (if length (next_in s) \<ge> 6 \<and> avail_out s \<ge> 258 then
       do { s \<leftarrow> inflate_fast s (call_out s);
            go (if mode s = TYPE_BITS then s\<lparr>back_bits := -1\<rparr> else s) }
     else slow_LEN s)"

definition step :: "nat \<Rightarrow> inf \<Rightarrow> inf flow option" where
  "step flush s =
    (case mode s of
       HEAD \<Rightarrow> do_HEAD s | FLAGS \<Rightarrow> do_FLAGS s | TIME \<Rightarrow> do_TIME s | OS \<Rightarrow> do_OS s
     | EXLEN \<Rightarrow> do_EXLEN s | EXTRA \<Rightarrow> do_EXTRA s | NAME \<Rightarrow> do_NAME s | COMMENT \<Rightarrow> do_COMMENT s
     | HCRC \<Rightarrow> do_HCRC s | DICTID \<Rightarrow> do_DICTID s | DICT \<Rightarrow> do_DICT s
     | TYPE_BITS \<Rightarrow> do_TYPE flush s | TYPEDO \<Rightarrow> do_TYPEDO flush s
     | STORED \<Rightarrow> do_STORED flush s | COPY_FIRST \<Rightarrow> do_COPY_FIRST s | COPY \<Rightarrow> do_COPY s
     | TABLE \<Rightarrow> do_TABLE s | LENLENS \<Rightarrow> do_LENLENS s | CODELENS \<Rightarrow> do_CODELENS flush s
     | LEN_FIRST \<Rightarrow> do_LEN_FIRST s | LEN \<Rightarrow> do_LEN s | LENEXT \<Rightarrow> do_LENEXT s
     | DIST \<Rightarrow> do_DIST s | DISTEXT \<Rightarrow> do_DISTEXT s | MATCH \<Rightarrow> do_MATCH s | LIT \<Rightarrow> do_LIT s
     | CHECK \<Rightarrow> do_CHECK s | LENGTH_CHECK \<Rightarrow> do_LENGTH s
     | DONE \<Rightarrow> Some (Leave s Z_STREAM_END) | BAD \<Rightarrow> Some (Leave s Z_DATA_ERROR)
     | MEM \<Rightarrow> Some (Ret s Z_MEM_ERROR) | SYNC \<Rightarrow> Some (Ret s Z_STREAM_ERROR))"

text \<open>\<open>for (;;) switch (state->mode) { \<dots> }\<close>; a loop that does not end is \<open>None\<close>.\<close>

partial_function (option) steps :: "nat \<Rightarrow> inf \<Rightarrow> inf flow option" where
  "steps flush s =
     Option.bind (step flush s)
       (\<lambda>r. case r of Go s \<Rightarrow> steps flush s | Leave s ret \<Rightarrow> Some (Leave s ret) | Ret s ret \<Rightarrow> Some (Ret s ret))"

declare steps.simps [code]

text \<open>From \<open>inf_leave\<close> on.\<close>

definition leave_inflate :: "(nat \<Rightarrow> bytes option) \<Rightarrow> nat \<Rightarrow> inf \<Rightarrow> int \<Rightarrow> (int \<times> inf) option" where
  "leave_inflate zalloc flush s ret =
     do { (no_mem, s) \<leftarrow>
            (if wsize s \<noteq> 0 \<or> (call_out s \<noteq> avail_out s \<and> before_bad (mode s) \<and>
                  (before_check (mode s) \<or> flush \<noteq> Z_FINISH))
             then updatewindow zalloc (out_buf s) (sub32 (call_out s) (avail_out s)) s
             else Some (False, s));
          if no_mem then Some (Z_MEM_ERROR, s\<lparr>mode := MEM\<rparr>)
          else do {
            let inn = sub32 (call_in s) (length (next_in s));
            let out = sub32 (call_out s) (avail_out s);
            let s = s\<lparr>total_in := total_in s + word_of_nat inn, total_out := total_out s + word_of_nat out,
                  total := total s + word_of_nat out\<rparr>;
            s \<leftarrow> (if wrap s \<noteq> 0 \<and> out \<noteq> 0 then
                    do { buf \<leftarrow> last_bytes out (out_buf s);
                         c \<leftarrow> UPDATE s (check s) buf;
                         Some (s\<lparr>adler := c, check := c\<rparr>) }
                  else Some s);
            let s = s\<lparr>data_kind := bits s + (if last_block s \<noteq> 0 then 64 else 0) +
                  (if mode s = TYPE_BITS then 128 else 0) +
                  (if mode s = LEN_FIRST \<or> mode s = COPY_FIRST then 256 else 0)\<rparr>;
            Some (if (inn = 0 \<and> out = 0 \<or> flush = Z_FINISH) \<and> ret = Z_OK then Z_BUF_ERROR else ret, s) } }"

definition inflate :: "(nat \<Rightarrow> bytes option) \<Rightarrow> nat \<Rightarrow> inf \<Rightarrow> (int \<times> inf) option" where
  "inflate zalloc flush s =
    (let s = (if mode s = TYPE_BITS then s\<lparr>mode := TYPEDO\<rparr> else s) in
     do { r \<leftarrow> steps flush (s\<lparr>call_in := length (next_in s), call_out := avail_out s\<rparr>);
          case r of
            Leave s ret \<Rightarrow> leave_inflate zalloc flush s ret
          | Ret s ret \<Rightarrow> Some (ret, s)
          | Go s \<Rightarrow> None })"

text \<open>What the application does between two calls.\<close>

definition feed :: "bytes \<Rightarrow> nat \<Rightarrow> inf \<Rightarrow> inf" where
  "feed input space s = s\<lparr>next_in := input, out_buf := [], avail_out := space\<rparr>"

section \<open>Starting\<close>

definition inflateResetKeep :: "inf \<Rightarrow> int \<times> inf" where
  "inflateResetKeep s =
    (let s = s\<lparr>total_in := 0, total_out := 0, total := 0, msg := None\<rparr>;
         s = (if wrap s \<noteq> 0 then s\<lparr>adler := word_of_nat (wrap s AND 1)\<rparr> else s) in
     (Z_OK, s\<lparr>mode := HEAD, last_block := 0, havedict := False, dmax := 32768, ghead := None, hold := 0,
        bits := 0, lencode := In_codes 0, distcode := In_codes 0, next_f := 0, sane := True, back_bits := -1\<rparr>))"

definition inflateReset :: "inf \<Rightarrow> int \<times> inf" where
  "inflateReset s = inflateResetKeep (s\<lparr>wsize := 0, whave := 0, wnext := 0\<rparr>)"

text \<open>The wrapping and the window bits that \<open>windowBits\<close> asks for.\<close>

definition window_request :: "int \<Rightarrow> nat \<times> int" where
  "window_request windowBits =
    (if windowBits < 0 then (0, - windowBits)
     else (nat (windowBits div 16) + 1, if windowBits < 48 then windowBits mod 16 else windowBits))"

definition inflateReset2 :: "int \<Rightarrow> inf \<Rightarrow> int \<times> inf" where
  "inflateReset2 windowBits s =
    (let (wr, wb) = window_request windowBits in
     if wb \<noteq> 0 \<and> (wb < 8 \<or> wb > 15) then (Z_STREAM_ERROR, s)
     else
       (let s = (if window s \<noteq> None \<and> wbits s \<noteq> nat wb then s\<lparr>window := None\<rparr> else s) in
        inflateReset (s\<lparr>wrap := wr, wbits := nat wb\<rparr>)))"

text \<open>\<open>inflateInit2_\<close>, given the memory of the new state; the version and the size of the stream
  are right.  The state is freed if the reset fails.\<close>

definition inflateInit2 :: "inf option \<Rightarrow> int \<Rightarrow> int \<times> inf option" where
  "inflateInit2 mem windowBits =
    (case mem of
       None \<Rightarrow> (Z_MEM_ERROR, None)
     | Some s \<Rightarrow>
         (let (ret, s) = inflateReset2 windowBits (s\<lparr>msg := None, window := None\<rparr>) in
          (ret, if ret \<noteq> Z_OK then None else Some s)))"

definition DEF_WBITS :: int where "DEF_WBITS = 15"

definition inflateInit :: "inf option \<Rightarrow> int \<times> inf option" where
  "inflateInit mem = inflateInit2 mem DEF_WBITS"

section \<open>The other entry points\<close>

text \<open>\<open>value\<close> is an \<open>int\<close>: shifted into its sign bit it is negative when it is added to \<open>hold\<close>.\<close>

definition inflatePrime :: "int \<Rightarrow> int \<Rightarrow> inf \<Rightarrow> int \<times> inf" where
  "inflatePrime n v s =
    (if n < 0 then (Z_OK, s\<lparr>hold := 0, bits := 0\<rparr>)
     else if n > 16 \<or> (int (bits s) + n) mod 2 ^ 32 > 32 then (Z_STREAM_ERROR, s)
     else
       (let v = v mod 2 ^ nat n;
            shifted = sint (word_of_int (v * 2 ^ bits s) :: 32 word) in
        (Z_OK, s\<lparr>hold := nat ((int (hold s) + shifted) mod 2 ^ 64), bits := bits s + nat n\<rparr>)))"

definition inflateGetDictionary :: "inf \<Rightarrow> (int \<times> bytes \<times> nat) option" where
  "inflateGetDictionary s =
    (if whave s = 0 then Some (Z_OK, [], 0)
     else do {
       w \<leftarrow> window s;
       (_, tail) \<leftarrow> split_at (wnext s) w;
       (a, _) \<leftarrow> split_at (sub32 (whave s) (wnext s)) tail;
       (b, _) \<leftarrow> split_at (wnext s) w;
       Some (Z_OK, a @ b, whave s) })"

definition inflateSetDictionary ::
    "(nat \<Rightarrow> bytes option) \<Rightarrow> bytes \<Rightarrow> nat \<Rightarrow> inf \<Rightarrow> (int \<times> inf) option" where
  "inflateSetDictionary zalloc dictionary dictLength s =
    (if wrap s \<noteq> 0 \<and> mode s \<noteq> DICT then Some (Z_STREAM_ERROR, s)
     else do {
       right \<leftarrow> (if mode s = DICT then
                   do { c \<leftarrow> adler32 0 None 0;
                        c \<leftarrow> adler32 c (Some dictionary) dictLength;
                        Some (c = check s) }
                 else Some True);
       if \<not> right then Some (Z_DATA_ERROR, s)
       else do {
         (no_mem, s) \<leftarrow> updatewindow zalloc (take dictLength dictionary) dictLength s;
         if no_mem then Some (Z_MEM_ERROR, s\<lparr>mode := MEM\<rparr>) else Some (Z_OK, s\<lparr>havedict := True\<rparr>) } })"

definition inflateGetHeader :: "gz_header \<Rightarrow> inf \<Rightarrow> int \<times> inf" where
  "inflateGetHeader h s =
    (if wrap s AND 2 = 0 then (Z_STREAM_ERROR, s) else (Z_OK, s\<lparr>ghead := Some (h\<lparr>gz_done := 0\<rparr>)\<rparr>))"

text \<open>\<open>syncsearch\<close>: the number of pattern bytes found, and the number of bytes read.\<close>

fun syncsearch :: "nat \<Rightarrow> bytes \<Rightarrow> nat \<times> nat" where
  "syncsearch got [] = (got, 0)"
| "syncsearch got (b # buf) =
    (if got < 4 then
       (let (g, n) = syncsearch (if b = (if got < 2 then 0 else 0xff) then got + 1 else if b \<noteq> 0 then 0 else 4 - got) buf
        in (g, n + 1))
     else (got, 0))"

text \<open>The bytes left in the bit buffer.\<close>

function hold_bytes :: "nat \<Rightarrow> nat \<Rightarrow> bytes" where
  "hold_bytes n h = (if n \<ge> 8 then word_of_nat h # hold_bytes (n - 8) (h div 2 ^ 8) else [])"
  by pat_completeness auto
termination by (relation "measure fst") auto

declare hold_bytes.simps [simp del]

definition inflateSync :: "inf \<Rightarrow> (int \<times> inf) option" where
  "inflateSync s =
    (if next_in s = [] \<and> bits s < 8 then Some (Z_BUF_ERROR, s)
     else do {
       s \<leftarrow> (if mode s \<noteq> SYNC then
               (let h = hold s * 2 ^ (bits s mod 8) mod 2 ^ 64; n = bits s - bits s mod 8;
                    buf = hold_bytes n h in
                if length buf > 4 then None
                else Some (s\<lparr>mode := SYNC, hold := h div 2 ^ (8 * (n div 8)), bits := n mod 8,
                      have_f := fst (syncsearch 0 buf)\<rparr>))
             else Some s);
       let (got, n) = syncsearch (have_f s) (next_in s);
       let s = s\<lparr>have_f := got, next_in := drop n (next_in s), total_in := total_in s + word_of_nat n\<rparr>;
       if got \<noteq> 4 then Some (Z_DATA_ERROR, s)
       else
         (let (_, s') = inflateReset s in
          Some (Z_OK, s'\<lparr>total_in := total_in s, total_out := total_out s, mode := TYPE_BITS\<rparr>)) })"

definition inflateSyncPoint :: "inf \<Rightarrow> bool" where
  "inflateSyncPoint s \<longleftrightarrow> mode s = STORED \<and> bits s = 0"

definition inflateUndermine :: "bool \<Rightarrow> inf \<Rightarrow> int \<times> inf" where
  "inflateUndermine subvert s = (Z_DATA_ERROR, s\<lparr>sane := True\<rparr>)"

definition inflateMark :: "inf \<Rightarrow> int" where
  "inflateMark s =
     back_bits s * 2 ^ 16 + (if mode s = COPY then int (length_f s)
                        else if mode s = MATCH then int (sub32 (was s) (length_f s)) else 0)"

text \<open>\<open>inflateCopy\<close>: the stream and the state are copied with all they contain, so that the copy is
  an equal value; its window is newly allocated memory of \<open>1 << wbits\<close> bytes.\<close>

definition inflateCopy :: "bool \<Rightarrow> (nat \<Rightarrow> bytes option) \<Rightarrow> inf \<Rightarrow> (int \<times> inf option) option" where
  "inflateCopy state_mem zalloc s =
    (if \<not> state_mem then Some (Z_MEM_ERROR, None)
     else (case window s of
             None \<Rightarrow> Some (Z_OK, Some s)
           | Some w \<Rightarrow>
               (case zalloc (2 ^ wbits s) of
                  None \<Rightarrow> Some (Z_MEM_ERROR, None)
                | Some m \<Rightarrow> do { m \<leftarrow> blit m 0 w (2 ^ wbits s); Some (Z_OK, Some (s\<lparr>window := Some m\<rparr>)) })))"

end
