(* ===== verification/Spec2Isabelle.thy ===== *)
theory Spec2Isabelle
  imports Adler32 Crc32 Lzw Sandbox Trees_Fixed Trees_Block Inflate
begin

text \<open>
  A verification library for the sandboxed \<^verbatim>\<open>gzip\<close> and \<^verbatim>\<open>zlib\<close> of this repository: \<^verbatim>\<open>libz_u\<close> is zlib
  1.2.8 as distributed, \<^verbatim>\<open>libz_h2\<close> and \<^verbatim>\<open>libz_all\<close> run it in a compartment, \<^verbatim>\<open>gzip_all\<close> is the
  \<^verbatim>\<open>gzip\<close> program with the decoders of older formats, and \<^verbatim>\<open>libsep\<close> carries the calls between a
  program and its sandboxed half over a socket.

  The target is 64-bit MIPS: \<open>unsigned long\<close> has 64 bits and memory is big endian; where
  the code looks at the byte order at run time both cases are modelled.
\<close>

end
